theory Spec2Isabelle
  imports Complex_Main
begin

section \<open>The task lifecycle manager of \<^verbatim>\<open>tools/server/task_manager.py\<close>\<close>

text \<open>
  The development embeds \<^verbatim>\<open>AsyncTask\<close>, \<^verbatim>\<open>TaskManager\<close> and the worker closure
  \<^verbatim>\<open>run_task\<close> of \<^verbatim>\<open>tools/server/task_manager.py\<close>, and the part of
  \<^verbatim>\<open>generate_audio_enhanced_async\<close> (\<^verbatim>\<open>tools/server/views.py\<close>) that creates a task.

  \<^item> Timestamps (\<^verbatim>\<open>time.time()\<close>) are reals; the clock is an argument of every
    function that reads it. Rounding of floats is not modelled.
  \<^item> The registry \<^verbatim>\<open>self.tasks\<close> is a Python dict: an association list in
    insertion order, whose keys are distinct.
  \<^item> The file system is a map from paths to contents; the log is the list of records
    handed to the logger. Both are fields of the state that is passed along.
  \<^item> A raised exception is a value; a function that can raise returns a sum whose
    left injection is the exception.
  \<^item> The worker thread is a program counter over the statements of \<^verbatim>\<open>run_task\<close>,
    advanced one statement at a time, so that the calls of other threads can be
    interleaved between any two of its statements.
\<close>

subsection \<open>Values of the environment\<close>

type_synonym bytes = "nat list"

type_synonym ndarray = "int list"

text \<open>Instances of \<^verbatim>\<open>Exception\<close>, with the message \<^verbatim>\<open>str(e)\<close> they carry.\<close>

datatype py_exception = ValueError string | OtherException string

fun str :: "py_exception \<Rightarrow> string" where
  "str (ValueError msg) = msg"
| "str (OtherException msg) = msg"

text \<open>
  What a \<^verbatim>\<open>raise\<close> throws: an instance of \<^verbatim>\<open>Exception\<close>, or an instance of another
  subclass of \<^verbatim>\<open>BaseException\<close> (\<^verbatim>\<open>SystemExit\<close>, \<^verbatim>\<open>KeyboardInterrupt\<close>,
  \<^verbatim>\<open>GeneratorExit\<close>, \<^verbatim>\<open>asyncio.CancelledError\<close>), given by the name of its class. A
  clause \<^verbatim>\<open>except Exception\<close> catches the first kind only.
\<close>

datatype raised = Exc py_exception | BaseExc string

text \<open>
  An f-string is kept as the list of its pieces, so that no number has to be printed.
\<close>

datatype piece = Str string | Num int | Flt real

datatype log_level = INFO | WARNING | ERROR

type_synonym log_record = "log_level \<times> piece list"

record World =
  files :: "string \<rightharpoonup> bytes"
  log :: "log_record list"

text \<open>
  What the operating system and the libraries answer. \<^verbatim>\<open>os.unlink\<close> raises for the
  paths where \<open>unlink_error\<close> says so (a permission, a busy file); \<^verbatim>\<open>sf.write\<close> encodes
  the audio or raises; opening the result file raises where
  \<open>open_error\<close> says so and writing it where \<open>write_error\<close> says so; \<open>inference\<close> is what the generator
  \<^verbatim>\<open>inference(task.request, engine)\<close> does at each \<^verbatim>\<open>next\<close>. The logger, called with a
  keyword argument as in line 183 (\<^verbatim>\<open>exc_info=True\<close>), formats the message with
  \<^verbatim>\<open>str.format\<close>, which raises for some messages that hold braces:
  \<open>log_format_error\<close> says for which.
\<close>

datatype infer_result = Segment bytes | Final ndarray

datatype gen_item = Yield infer_result | Raise raised

record Env =
  unlink_error :: "string \<Rightarrow> py_exception option"
  open_error :: "string \<Rightarrow> raised option"
  write_error :: "string \<Rightarrow> raised option"
  sf_write :: "ndarray \<Rightarrow> nat \<Rightarrow> string \<Rightarrow> raised + bytes"
  sample_rate :: nat
  inference :: "gen_item list"
  log_format_error :: "string \<Rightarrow> py_exception option"

definition os_path_exists :: "(string \<rightharpoonup> bytes) \<Rightarrow> string \<Rightarrow> bool" where
  "os_path_exists fs p = (fs p \<noteq> None)"

definition os_unlink ::
  "Env \<Rightarrow> string \<Rightarrow> (string \<rightharpoonup> bytes) \<Rightarrow> py_exception + (string \<rightharpoonup> bytes)" where
  "os_unlink env p fs =
     (case unlink_error env p of
        Some e \<Rightarrow> Inl e
      | None \<Rightarrow>
          if fs p = None then Inl (OtherException ''No such file or directory'')
          else Inr (fs(p := None)))"

subsection \<open>TaskStatus and AsyncTask\<close>

datatype TaskStatus = PENDING | RUNNING | COMPLETED | FAILED | CANCELLED

fun status_value :: "TaskStatus \<Rightarrow> string" where
  "status_value PENDING = ''pending''"
| "status_value RUNNING = ''running''"
| "status_value COMPLETED = ''completed''"
| "status_value FAILED = ''failed''"
| "status_value CANCELLED = ''cancelled''"

text \<open>
  Modelled from the spec: \<^verbatim>\<open>ServeTTSRequest\<close> is declared in
  \<^verbatim>\<open>fish_speech.utils.schema\<close>, which is not among the sources; the spec calls it an
  opaque immutable payload (text, output format, ...). The task manager reads its
  \<^verbatim>\<open>format\<close> only.
\<close>

record ServeTTSRequest =
  tts_text :: string
  format :: string

text \<open>
  The fields of \<^verbatim>\<open>AsyncTask.__init__\<close>. The event \<^verbatim>\<open>cancelled\<close> is a flag that is only
  ever set. The field \<^verbatim>\<open>thread\<close> is the handle of the worker; the worker itself is the
  record \<open>Worker\<close> below.
\<close>

record AsyncTask =
  step_id :: string
  request :: ServeTTSRequest
  status :: TaskStatus
  created_at :: real
  started_at :: "real option"
  completed_at :: "real option"
  error_message :: "string option"
  result_path :: "string option"
  cancelled :: bool

definition AsyncTask_init :: "real \<Rightarrow> string \<Rightarrow> ServeTTSRequest \<Rightarrow> AsyncTask" where
  "AsyncTask_init now sid req =
     \<lparr>step_id = sid, request = req, status = PENDING, created_at = now,
      started_at = None, completed_at = None, error_message = None,
      result_path = None, cancelled = False\<rparr>"

text \<open>\<^verbatim>\<open>AsyncTask.cancel\<close>: set the event, then the two branches on the status.\<close>

definition cancel :: "AsyncTask \<Rightarrow> AsyncTask" where
  "cancel task =
     (let task = task\<lparr>cancelled := True\<rparr> in
      if status task = PENDING then task\<lparr>status := CANCELLED\<rparr>
      else if status task = RUNNING then task\<lparr>status := CANCELLED\<rparr>
      else task)"

definition terminal :: "TaskStatus \<Rightarrow> bool" where
  "terminal st = (st = COMPLETED \<or> st = FAILED \<or> st = CANCELLED)"

subsection \<open>TaskManager\<close>

record TaskManager = World +
  tasks :: "(string \<times> AsyncTask) list"
  temp_dir :: string

text \<open>Dict operations on the association list.\<close>

definition dict_contains :: "string \<Rightarrow> (string \<times> 'v) list \<Rightarrow> bool" where
  "dict_contains k d = (map_of d k \<noteq> None)"

definition dict_get :: "(string \<times> 'v) list \<Rightarrow> string \<Rightarrow> 'v option" where
  "dict_get d k = map_of d k"

text \<open>\<^verbatim>\<open>d[k] = v\<close>: an existing key keeps its place, a new key goes to the end.\<close>

fun dict_set :: "string \<Rightarrow> 'v \<Rightarrow> (string \<times> 'v) list \<Rightarrow> (string \<times> 'v) list" where
  "dict_set k v [] = [(k, v)]"
| "dict_set k v ((k', v') # d) =
     (if k' = k then (k, v) # d else (k', v') # dict_set k v d)"

text \<open>\<^verbatim>\<open>del d[k]\<close> raises \<^verbatim>\<open>KeyError\<close> for a key that is absent.\<close>

definition dict_del ::
  "string \<Rightarrow> (string \<times> 'v) list \<Rightarrow> py_exception + (string \<times> 'v) list" where
  "dict_del k d =
     (if dict_contains k d then Inr (filter (\<lambda>kv. fst kv \<noteq> k) d)
      else Inl (OtherException k))"

definition create_task ::
  "real \<Rightarrow> string \<Rightarrow> ServeTTSRequest \<Rightarrow> TaskManager
     \<Rightarrow> py_exception + (AsyncTask \<times> TaskManager)" where
  "create_task now sid req m =
     (if dict_contains sid (tasks m)
      then Inl (ValueError (''Task with step_id '' @ sid @ '' already exists''))
      else
        let task = AsyncTask_init now sid req in
        Inr (task, m\<lparr>tasks := dict_set sid task (tasks m),
                      log := log m @ [(INFO, [Str ''Created task '', Str sid])]\<rparr>))"

definition get_task :: "string \<Rightarrow> TaskManager \<Rightarrow> AsyncTask option" where
  "get_task sid m = dict_get (tasks m) sid"

text \<open>
  \<^verbatim>\<open>cancel_task\<close>: \<^verbatim>\<open>task.cancel()\<close> mutates the object the dict refers to, so the
  entry of the key is replaced by the cancelled task.
\<close>

definition cancel_task :: "string \<Rightarrow> TaskManager \<Rightarrow> bool \<times> TaskManager" where
  "cancel_task sid m =
     (case dict_get (tasks m) sid of
        None \<Rightarrow> (False, m)
      | Some task \<Rightarrow>
          (True, m\<lparr>tasks := dict_set sid (cancel task) (tasks m),
                    log := log m @ [(INFO, [Str ''Task '', Str sid, Str '' cancelled''])]\<rparr>))"

text \<open>The loop of \<^verbatim>\<open>cancel_all_tasks\<close> over \<^verbatim>\<open>self.tasks.values()\<close>.\<close>

fun cancel_all_loop ::
  "(string \<times> AsyncTask) list \<Rightarrow> nat \<Rightarrow> (string \<times> AsyncTask) list \<times> nat" where
  "cancel_all_loop [] count = ([], count)"
| "cancel_all_loop ((sid, task) # rest) count =
     (if status task = PENDING \<or> status task = RUNNING
      then (case cancel_all_loop rest (count + 1) of
              (rest', n) \<Rightarrow> ((sid, cancel task) # rest', n))
      else (case cancel_all_loop rest count of
              (rest', n) \<Rightarrow> ((sid, task) # rest', n)))"

definition cancel_all_tasks :: "TaskManager \<Rightarrow> nat \<times> TaskManager" where
  "cancel_all_tasks m =
     (case cancel_all_loop (tasks m) 0 of
        (ts, count) \<Rightarrow>
          (count, m\<lparr>tasks := ts,
                     log := log m @ [(INFO, [Str ''Cancelled '', Num (int count), Str '' tasks''])]\<rparr>))"

subsection \<open>cleanup_old_tasks\<close>

text \<open>
  Lines 240 to 244: the result file is deleted when \<^verbatim>\<open>result_path\<close> is truthy and the
  path exists; an exception of \<^verbatim>\<open>os.unlink\<close> is caught and becomes a warning.
\<close>

definition delete_result_file ::
  "Env \<Rightarrow> AsyncTask \<Rightarrow> TaskManager \<Rightarrow> TaskManager" where
  "delete_result_file env task m =
     (case result_path task of
        None \<Rightarrow> m
      | Some p \<Rightarrow>
          if p \<noteq> [] \<and> os_path_exists (files m) p then
            (case os_unlink env p (files m) of
               Inr fs \<Rightarrow> m\<lparr>files := fs\<rparr>
             | Inl e \<Rightarrow>
                 m\<lparr>log := log m @
                    [(WARNING, [Str ''Failed to delete temp file '', Str p,
                                Str '': '', Str (str e)])]\<rparr>)
          else m)"

text \<open>
  The first loop, over \<^verbatim>\<open>self.tasks.items()\<close>, with its two accumulators
  \<^verbatim>\<open>tasks_to_remove\<close> and \<^verbatim>\<open>cleaned\<close>.
\<close>

fun cleanup_scan ::
  "Env \<Rightarrow> real \<Rightarrow> real \<Rightarrow> (string \<times> AsyncTask) list
     \<Rightarrow> TaskManager \<times> string list \<times> nat \<Rightarrow> TaskManager \<times> string list \<times> nat" where
  "cleanup_scan env current_time max_age_seconds [] acc = acc"
| "cleanup_scan env current_time max_age_seconds ((sid, task) # items)
     (m, tasks_to_remove, cleaned) =
     (let age = current_time - created_at task in
      if age > max_age_seconds then
        cleanup_scan env current_time max_age_seconds items
          (delete_result_file env task m, tasks_to_remove @ [sid], cleaned + 1)
      else
        cleanup_scan env current_time max_age_seconds items
          (m, tasks_to_remove, cleaned))"

text \<open>The second loop: \<^verbatim>\<open>del self.tasks[step_id]\<close> for every collected key.\<close>

fun cleanup_remove ::
  "string list \<Rightarrow> (string \<times> AsyncTask) list
     \<Rightarrow> py_exception + (string \<times> AsyncTask) list" where
  "cleanup_remove [] d = Inr d"
| "cleanup_remove (sid # sids) d =
     (case dict_del sid d of
        Inl e \<Rightarrow> Inl e
      | Inr d' \<Rightarrow> cleanup_remove sids d')"

definition cleanup_old_tasks ::
  "Env \<Rightarrow> real \<Rightarrow> real \<Rightarrow> TaskManager \<Rightarrow> py_exception + TaskManager" where
  "cleanup_old_tasks env current_time max_age_seconds m =
     (case cleanup_scan env current_time max_age_seconds (tasks m) (m, [], 0) of
        (m1, tasks_to_remove, cleaned) \<Rightarrow>
          (case cleanup_remove tasks_to_remove (tasks m1) of
             Inl e \<Rightarrow> Inl e
           | Inr d \<Rightarrow>
               Inr (if cleaned > 0
                    then m1\<lparr>tasks := d,
                            log := log m1 @
                              [(INFO, [Str ''Cleaned up '', Num (int cleaned),
                                       Str '' old tasks''])]\<rparr>
                    else m1\<lparr>tasks := d\<rparr>)))"

subsection \<open>start_task and the worker run_task\<close>

text \<open>
  The program counter of the worker: the line of \<^verbatim>\<open>task_manager.py\<close> whose statement
  is executed next. A step executes one statement that writes the task, the file
  system or the log, or that reads what another thread may write; the assignments to
  local variables that follow it are part of the same step. \<open>L131\<close> carries what is
  left of the generator, \<open>L133\<close> the item just received, \<open>L152\<close> the value of
  \<^verbatim>\<open>audio_data\<close>, \<open>L160\<close> the audio to encode, \<open>L167\<close> the encoded buffer, and the
  lines of the handler carry the exception caught. The worker ends by returning
  (\<open>Returned\<close>) or by an exception that nothing in \<^verbatim>\<open>run_task\<close> catches and that ends
  the thread (\<open>Uncaught\<close>).
\<close>

datatype pc =
    L117 | L118 | L121 | L122
  | L131 "gen_item list"
  | L133 infer_result "gen_item list"
  | L134 | L136
  | L152 "ndarray option"
  | L160 ndarray
  | L167 bytes
  | L170 | L171 | L172 | L174
  | L180 py_exception | L181 py_exception | L182 py_exception | L183 py_exception
  | Returned
  | Uncaught raised

text \<open>
  \<open>pulls\<close> counts the calls of \<^verbatim>\<open>next\<close> on the generator of the inference function:
  it is 0 as long as no inference work was asked for.
\<close>

record Worker = World +
  pc :: pc
  task :: AsyncTask
  pulls :: nat

text \<open>
  \<^verbatim>\<open>start_task\<close> creates the thread and returns; the worker stands before line 117.
\<close>

definition start_task :: "AsyncTask \<Rightarrow> World \<Rightarrow> Worker" where
  "start_task t wld =
     \<lparr>files = files wld, log = log wld, pc = L117, task = t, pulls = 0\<rparr>"

text \<open>
  \<^verbatim>\<open>self.temp_dir / result_filename\<close>: a file name that is absolute replaces the
  directory. Other normalisations of \<^verbatim>\<open>pathlib\<close> are not modelled.
\<close>

definition path_join :: "string \<Rightarrow> string \<Rightarrow> string" where
  "path_join dir name =
     (case name of
        c # cs \<Rightarrow> if c = CHR ''/'' then name else dir @ ''/'' @ name
      | [] \<Rightarrow> dir)"

definition result_file :: "string \<Rightarrow> AsyncTask \<Rightarrow> string" where
  "result_file dir t = path_join dir (step_id t @ ''.'' @ format (request t))"

text \<open>
  A statement of the \<^verbatim>\<open>try\<close> block that raises: line 179 is \<^verbatim>\<open>except Exception\<close>, so
  an instance of \<^verbatim>\<open>Exception\<close> passes control to line 180, and anything else leaves
  \<^verbatim>\<open>run_task\<close> and ends the thread, the task being left as it is.
\<close>

definition raise :: "raised \<Rightarrow> Worker \<Rightarrow> Worker" where
  "raise x w =
     (case x of
        Exc e \<Rightarrow> w\<lparr>pc := L180 e\<rparr>
      | BaseExc name \<Rightarrow> w\<lparr>pc := Uncaught x\<rparr>)"

text \<open>The message of line 183, the f-string evaluated.\<close>

definition failed_message :: "AsyncTask \<Rightarrow> py_exception \<Rightarrow> string" where
  "failed_message t e = ''Task '' @ step_id t @ '' failed: '' @ str e"

text \<open>Lines 136 to 140, the deletion of a partial result after a cancellation.\<close>

definition delete_partial_file :: "Env \<Rightarrow> Worker \<Rightarrow> Worker" where
  "delete_partial_file env w =
     (case result_path (task w) of
        None \<Rightarrow> w
      | Some p \<Rightarrow>
          if p \<noteq> [] \<and> os_path_exists (files w) p then
            (case os_unlink env p (files w) of
               Inr fs \<Rightarrow> w\<lparr>files := fs\<rparr>
             | Inl e \<Rightarrow>
                 w\<lparr>log := log w @
                    [(WARNING, [Str ''Failed to delete temp file: '', Str (str e)])]\<rparr>)
          else w)"

text \<open>
  One statement of \<^verbatim>\<open>run_task\<close>. \<open>dir\<close> is \<^verbatim>\<open>self.temp_dir\<close> and \<open>now\<close> is what
  \<^verbatim>\<open>time.time()\<close> returns if the statement calls it. The call of the logger in line
  183 stands inside the handler: what it raises is caught by nothing.
\<close>

definition run_task_step :: "Env \<Rightarrow> string \<Rightarrow> real \<Rightarrow> Worker \<Rightarrow> Worker" where
  "run_task_step env dir now w =
     (case pc w of
        L117 \<Rightarrow> w\<lparr>task := (task w)\<lparr>status := RUNNING\<rparr>, pc := L118\<rparr>
      | L118 \<Rightarrow> w\<lparr>task := (task w)\<lparr>started_at := Some now\<rparr>, pc := L121\<rparr>
      | L121 \<Rightarrow>
          if cancelled (task w) then w\<lparr>pc := L122\<rparr>
          else w\<lparr>pc := L131 (inference env)\<rparr>
      | L122 \<Rightarrow> w\<lparr>task := (task w)\<lparr>status := CANCELLED\<rparr>, pc := Returned\<rparr>
      | L131 gen \<Rightarrow>
          (case gen of
             [] \<Rightarrow> w\<lparr>pulls := pulls w + 1, pc := L152 None\<rparr>
           | Raise x # rest \<Rightarrow> raise x (w\<lparr>pulls := pulls w + 1\<rparr>)
           | Yield r # rest \<Rightarrow> w\<lparr>pulls := pulls w + 1, pc := L133 r rest\<rparr>)
      | L133 r rest \<Rightarrow>
          if cancelled (task w) then w\<lparr>pc := L134\<rparr>
          else (case r of
                  Final audio \<Rightarrow> w\<lparr>pc := L152 (Some audio)\<rparr>
                | Segment b \<Rightarrow> w\<lparr>pc := L131 rest\<rparr>)
      | L134 \<Rightarrow> w\<lparr>task := (task w)\<lparr>status := CANCELLED\<rparr>, pc := L136\<rparr>
      | L136 \<Rightarrow> (delete_partial_file env w)\<lparr>pc := Returned\<rparr>
      | L152 audio_data \<Rightarrow>
          (case audio_data of
             None \<Rightarrow> raise (Exc (ValueError ''No audio generated'')) w
           | Some audio \<Rightarrow> w\<lparr>pc := L160 audio\<rparr>)
      | L160 audio \<Rightarrow>
          (case sf_write env audio (sample_rate env) (format (request (task w))) of
             Inl x \<Rightarrow> raise x w
           | Inr buffer \<Rightarrow> w\<lparr>pc := L167 buffer\<rparr>)
      | L167 buffer \<Rightarrow>
          (let p = result_file dir (task w) in
           case open_error env p of
             Some x \<Rightarrow> raise x w
           | None \<Rightarrow>
               (case write_error env p of
                  Some x \<Rightarrow> raise x (w\<lparr>files := (files w)(p \<mapsto> [])\<rparr>)
                | None \<Rightarrow> w\<lparr>files := (files w)(p \<mapsto> buffer), pc := L170\<rparr>))
      | L170 \<Rightarrow>
          w\<lparr>task := (task w)\<lparr>result_path := Some (result_file dir (task w))\<rparr>,
            pc := L171\<rparr>
      | L171 \<Rightarrow> w\<lparr>task := (task w)\<lparr>status := COMPLETED\<rparr>, pc := L172\<rparr>
      | L172 \<Rightarrow> w\<lparr>task := (task w)\<lparr>completed_at := Some now\<rparr>, pc := L174\<rparr>
      | L174 \<Rightarrow>
          (case (completed_at (task w), started_at (task w)) of
             (Some c, Some s) \<Rightarrow>
               w\<lparr>log := log w @
                    [(INFO, [Str ''Task '', Str (step_id (task w)),
                             Str '' completed in '', Flt (c - s), Str ''s''])],
                 pc := Returned\<rparr>
           | _ \<Rightarrow> raise (Exc (OtherException ''unsupported operand type(s) for -'')) w)
      | L180 e \<Rightarrow> w\<lparr>task := (task w)\<lparr>status := FAILED\<rparr>, pc := L181 e\<rparr>
      | L181 e \<Rightarrow> w\<lparr>task := (task w)\<lparr>error_message := Some (str e)\<rparr>, pc := L182 e\<rparr>
      | L182 e \<Rightarrow> w\<lparr>task := (task w)\<lparr>completed_at := Some now\<rparr>, pc := L183 e\<rparr>
      | L183 e \<Rightarrow>
          (case log_format_error env (failed_message (task w) e) of
             Some x \<Rightarrow> w\<lparr>pc := Uncaught (Exc x)\<rparr>
           | None \<Rightarrow>
               w\<lparr>log := log w @
                    [(ERROR, [Str ''Task '', Str (step_id (task w)), Str '' failed: '',
                              Str (str e)])],
                 pc := Returned\<rparr>)
      | Returned \<Rightarrow> w
      | Uncaught x \<Rightarrow> w)"

subsection \<open>The worker among the calls of other threads\<close>

text \<open>
  What can happen to a task once its worker exists: the worker executes its next
  statement (at the given clock value), some thread calls \<^verbatim>\<open>cancel_task\<close> for its id,
  which calls \<^verbatim>\<open>task.cancel()\<close>, or some thread calls \<^verbatim>\<open>cancel_all_tasks\<close>, which
  calls \<^verbatim>\<open>task.cancel()\<close> if the status is pending or running. A call of
  \<^verbatim>\<open>task.cancel()\<close> is taken as one step.
\<close>

datatype event = Step real | Cancel | CancelAll

fun apply_event :: "Env \<Rightarrow> string \<Rightarrow> Worker \<Rightarrow> event \<Rightarrow> Worker" where
  "apply_event env dir w (Step now) = run_task_step env dir now w"
| "apply_event env dir w Cancel = w\<lparr>task := cancel (task w)\<rparr>"
| "apply_event env dir w CancelAll =
     (if status (task w) = PENDING \<or> status (task w) = RUNNING
      then w\<lparr>task := cancel (task w)\<rparr> else w)"

definition run :: "Env \<Rightarrow> string \<Rightarrow> event list \<Rightarrow> Worker \<Rightarrow> Worker" where
  "run env dir evs w = foldl (apply_event env dir) w evs"

fun is_step :: "event \<Rightarrow> bool" where
  "is_step (Step now) = True"
| "is_step Cancel = False"
| "is_step CancelAll = False"

definition steps :: "event list \<Rightarrow> nat" where
  "steps evs = length (filter is_step evs)"

text \<open>
  The number of statements the worker still executes once the flag is set and it
  stands before line 117 or at a checkpoint, and the number it still executes from a
  statement that raises inside the \<^verbatim>\<open>try\<close> block.
\<close>

fun cancel_rank :: "pc \<Rightarrow> nat" where
  "cancel_rank L117 = 4"
| "cancel_rank L118 = 3"
| "cancel_rank L121 = 2"
| "cancel_rank L122 = 1"
| "cancel_rank (L133 r rest) = 3"
| "cancel_rank L134 = 2"
| "cancel_rank L136 = 1"
| "cancel_rank _ = 0"

fun fail_rank :: "pc \<Rightarrow> nat" where
  "fail_rank (L131 []) = 6"
| "fail_rank (L131 (x # gen)) = 5"
| "fail_rank (L152 a) = 5"
| "fail_rank (L160 a) = 5"
| "fail_rank (L167 b) = 5"
| "fail_rank (L180 e) = 4"
| "fail_rank (L181 e) = 3"
| "fail_rank (L182 e) = 2"
| "fail_rank (L183 e) = 1"
| "fail_rank _ = 0"

subsection \<open>The creation of a task in generate_audio_enhanced_async\<close>

text \<open>
  Modelled from the spec: \<^verbatim>\<open>AsyncGenerateRequest\<close> and \<^verbatim>\<open>AsyncGenerateResponse\<close> are
  declared in \<^verbatim>\<open>fish_speech.utils.schema\<close> and \<^verbatim>\<open>format_response\<close> in
  \<^verbatim>\<open>tools.server.api_utils\<close>, which are not among the sources. The request keeps the
  fields the handler reads for the task (id, text, format); a response is the pair
  of the status code given to \<^verbatim>\<open>format_response\<close> (\<open>None\<close> where the handler gives
  none) and the fields of the response object.
\<close>

record AsyncGenerateRequest =
  areq_step_id :: string
  areq_text :: string
  areq_format :: string

record AsyncGenerateResponse =
  success :: bool
  message :: "piece list"
  resp_step_id :: string
  resp_status :: string

type_synonym http_response = "nat option \<times> AsyncGenerateResponse"

text \<open>
  The handler, from the check of the text length on. It returns the response, the
  manager, and the worker it has started if any. \<open>max_text_length\<close> is
  \<^verbatim>\<open>app_state.max_text_length\<close>. The response of a task that was started is built
  before the worker has executed a statement.
\<close>

definition generate_audio_enhanced_async ::
  "int \<Rightarrow> real \<Rightarrow> AsyncGenerateRequest \<Rightarrow> TaskManager
     \<Rightarrow> http_response \<times> TaskManager \<times> Worker option" where
  "generate_audio_enhanced_async max_text_length now req m =
     (if max_text_length > 0 \<and> int (length (areq_text req)) > max_text_length then
        ((Some 400,
          \<lparr>success = False,
           message = [Str ''Text is too long, max length is '', Num max_text_length],
           resp_step_id = areq_step_id req, resp_status = ''failed''\<rparr>), m, None)
      else
        let tts_request = \<lparr>tts_text = areq_text req, format = areq_format req\<rparr> in
        case create_task now (areq_step_id req) tts_request m of
          Inl (ValueError msg) \<Rightarrow>
            ((Some 400,
              \<lparr>success = False, message = [Str msg],
               resp_step_id = areq_step_id req, resp_status = ''failed''\<rparr>), m, None)
        | Inl (OtherException msg) \<Rightarrow>
            ((Some 500,
              \<lparr>success = False,
               message = [Str ''Failed to create async task: '', Str msg],
               resp_step_id = areq_step_id req, resp_status = ''failed''\<rparr>),
             m\<lparr>log := log m @ [(ERROR, [Str ''Error in async generation: '', Str msg])]\<rparr>,
             None)
        | Inr (t, m') \<Rightarrow>
            ((None,
              \<lparr>success = True, message = [Str ''Task created and started''],
               resp_step_id = areq_step_id req,
               resp_status = status_value (status t)\<rparr>),
             m', Some (start_task t \<lparr>files = files m', log = log m'\<rparr>)))"

subsection \<open>What holds of the task at each statement of the worker\<close>

definition fresh :: "AsyncTask \<Rightarrow> bool" where
  "fresh t = (result_path t = None \<and> error_message t = None)"

definition live :: "TaskStatus \<Rightarrow> bool" where
  "live st = (st = RUNNING \<or> st = CANCELLED)"

fun pc_inv :: "pc \<Rightarrow> AsyncTask \<Rightarrow> bool" where
  "pc_inv L117 t = ((status t = PENDING \<or> status t = CANCELLED) \<and> fresh t)"
| "pc_inv L118 t = (live (status t) \<and> fresh t)"
| "pc_inv L136 t = (status t = CANCELLED \<and> fresh t \<and> started_at t \<noteq> None)"
| "pc_inv L171 t =
     (live (status t) \<and> result_path t \<noteq> None \<and> error_message t = None
      \<and> started_at t \<noteq> None)"
| "pc_inv L172 t =
     (status t = COMPLETED \<and> result_path t \<noteq> None \<and> error_message t = None
      \<and> started_at t \<noteq> None)"
| "pc_inv L174 t =
     (status t = COMPLETED \<and> result_path t \<noteq> None \<and> error_message t = None
      \<and> started_at t \<noteq> None \<and> completed_at t \<noteq> None)"
| "pc_inv (L181 e) t = (status t = FAILED \<and> fresh t)"
| "pc_inv (L182 e) t =
     (status t = FAILED \<and> result_path t = None \<and> error_message t \<noteq> None)"
| "pc_inv (L183 e) t =
     (status t = FAILED \<and> result_path t = None \<and> error_message t \<noteq> None)"
| "pc_inv Returned t =
     (status t = CANCELLED \<and> fresh t
      \<or> status t = COMPLETED \<and> result_path t \<noteq> None \<and> error_message t = None
      \<or> status t = FAILED \<and> result_path t = None \<and> error_message t \<noteq> None)"
| "pc_inv (Uncaught x) t =
     (live (status t) \<and> fresh t
      \<or> status t = FAILED \<and> result_path t = None \<and> error_message t \<noteq> None)"
| "pc_inv _ t = (live (status t) \<and> fresh t \<and> started_at t \<noteq> None)"

text \<open>The handler of line 179, entered with the exception \<open>e\<close>.\<close>

fun handler_inv :: "Env \<Rightarrow> py_exception \<Rightarrow> pc \<Rightarrow> AsyncTask \<Rightarrow> bool" where
  "handler_inv env e (L180 e') t = (e' = e)"
| "handler_inv env e (L181 e') t = (e' = e \<and> status t = FAILED)"
| "handler_inv env e (L182 e') t =
     (e' = e \<and> status t = FAILED \<and> error_message t = Some (str e))"
| "handler_inv env e (L183 e') t =
     (e' = e \<and> status t = FAILED \<and> error_message t = Some (str e)
      \<and> completed_at t \<noteq> None)"
| "handler_inv env e Returned t =
     (status t = FAILED \<and> error_message t = Some (str e) \<and> completed_at t \<noteq> None)"
| "handler_inv env e (Uncaught x) t =
     (status t = FAILED \<and> error_message t = Some (str e) \<and> completed_at t \<noteq> None
      \<and> log_format_error env (failed_message t e) \<noteq> None)"
| "handler_inv env e _ t = False"

text \<open>The test of line 238.\<close>

definition expired :: "real \<Rightarrow> real \<Rightarrow> AsyncTask \<Rightarrow> bool" where
  "expired current_time max_age_seconds t =
     (current_time - created_at t > max_age_seconds)"

subsection \<open>Concrete inputs\<close>

definition ex_request :: ServeTTSRequest where
  "ex_request = \<lparr>tts_text = ''hello'', format = ''wav''\<rparr>"

definition ex_task :: AsyncTask where
  "ex_task = AsyncTask_init 5 ''a'' ex_request"

definition ex_world :: World where
  "ex_world = \<lparr>files = Map.empty, log = []\<rparr>"

definition ex_manager :: "AsyncTask \<Rightarrow> TaskManager" where
  "ex_manager t =
     \<lparr>files = Map.empty, log = [], tasks = [(''a'', t)], temp_dir = ''/tmp''\<rparr>"

text \<open>
  An environment in which no call of the system or of a library raises; its logger
  refuses a message that holds a brace (\<^verbatim>\<open>str.format\<close> accepts some of them, which no
  example needs).
\<close>

definition ex_env :: "gen_item list \<Rightarrow> Env" where
  "ex_env gen =
     \<lparr>unlink_error = (\<lambda>p. None), open_error = (\<lambda>p. None), write_error = (\<lambda>p. None),
      sf_write = (\<lambda>audio rate fmt. Inr (map nat audio)), sample_rate = 44100,
      inference = gen,
      log_format_error =
        (\<lambda>msg. if CHR ''{'' \<in> set msg \<or> CHR ''}'' \<in> set msg
               then Some (OtherException ''KeyError'') else None)\<rparr>"

definition ex_running_task :: AsyncTask where
  "ex_running_task = ex_task\<lparr>status := RUNNING, started_at := Some 6\<rparr>"

definition ex_done_task :: AsyncTask where
  "ex_done_task =
     ex_task\<lparr>status := COMPLETED, started_at := Some 6, completed_at := Some 8,
             result_path := Some ''/tmp/a.wav''\<rparr>"

definition ex_worker :: "pc \<Rightarrow> AsyncTask \<Rightarrow> Worker" where
  "ex_worker p t = \<lparr>files = Map.empty, log = [], pc = p, task = t, pulls = 0\<rparr>"

definition ex_manager2 :: TaskManager where
  "ex_manager2 =
     \<lparr>files = [''/tmp/a.wav'' \<mapsto> [1, 2]], log = [],
      tasks = [(''a'', ex_done_task), (''b'', AsyncTask_init 5 ''b'' ex_request)],
      temp_dir = ''/tmp''\<rparr>"

text \<open>An inference that yields one segment and no final output.\<close>

definition ex_segments :: Env where
  "ex_segments = ex_env [Yield (Segment [1, 2])]"

text \<open>An inference that yields the final output at once.\<close>

definition ex_final :: Env where
  "ex_final = ex_env [Yield (Final [1, 2])]"

text \<open>An inference that raises at its first \<^verbatim>\<open>next\<close>.\<close>

definition ex_boom :: Env where
  "ex_boom = ex_env [Raise (Exc (OtherException ''boom''))]"

text \<open>An inference that raises \<^verbatim>\<open>SystemExit\<close> at its first \<^verbatim>\<open>next\<close>.\<close>

definition ex_exit :: Env where
  "ex_exit = ex_env [Raise (BaseExc ''SystemExit'')]"

text \<open>An inference that yields three segments and no final output.\<close>

definition ex_three_segments :: Env where
  "ex_three_segments = ex_env [Yield (Segment [1]), Yield (Segment [2]), Yield (Segment [3])]"

text \<open>An operating system that refuses every deletion.\<close>

definition ex_denied :: Env where
  "ex_denied = (ex_env [])\<lparr>unlink_error := (\<lambda>p. Some (OtherException ''Permission denied''))\<rparr>"

text \<open>
  Event lists. With \<open>ex_final\<close>, six statements take the worker from line 117 past
  its last checkpoint to line 160, and four more past line 171; twelve end it.
\<close>

definition ex_to_L160 :: "event list" where
  "ex_to_L160 = [Step 6, Step 7, Step 8, Step 9, Step 10, Step 11]"

definition ex_to_L172 :: "event list" where
  "ex_to_L172 = [Step 12, Step 13, Step 14, Step 15]"

definition ex_all :: "event list" where
  "ex_all = [Step 6, Step 7, Step 8, Step 9, Step 10, Step 11,
             Step 12, Step 13, Step 14, Step 15, Step 16, Step 17]"

section \<open>Properties\<close>

subsection \<open>Dict operations\<close>

lemma map_of_dict_set_same: "map_of (dict_set k v d) k = Some v"
  by (induction d) auto

lemma map_of_dict_set_other: "k' \<noteq> k \<Longrightarrow> map_of (dict_set k v d) k' = map_of d k'"
  by (induction d) auto

lemma keys_dict_set_present:
  "map_of d k \<noteq> None \<Longrightarrow> map fst (dict_set k v d) = map fst d"
  by (induction d) auto

subsection \<open>cancel\<close>

lemma cancel_terminal: "terminal (status t) \<Longrightarrow> cancel t = t\<lparr>cancelled := True\<rparr>"
  by (auto simp: cancel_def terminal_def Let_def)

lemma cancel_running:
  "status t = RUNNING \<Longrightarrow> cancel t = t\<lparr>cancelled := True, status := CANCELLED\<rparr>"
  by (simp add: cancel_def Let_def)

text \<open>
  What \<^verbatim>\<open>cancel_task\<close> and \<^verbatim>\<open>cancel_all_tasks\<close> do to the record of an id is what
  the events \<open>Cancel\<close> and \<open>CancelAll\<close> do to the task of a worker.
\<close>

lemma cancel_task_entry:
  "get_task sid m = Some t \<Longrightarrow> get_task sid (snd (cancel_task sid m)) = Some (cancel t)"
  by (simp add: cancel_task_def get_task_def dict_get_def map_of_dict_set_same)

lemma cancel_all_loop_map:
  "cancel_all_loop ts n =
     (map (\<lambda>(sid, t). (sid, if status t = PENDING \<or> status t = RUNNING then cancel t else t)) ts,
      n + length (filter (\<lambda>(sid, t). status t = PENDING \<or> status t = RUNNING) ts))"
  by (induction ts n rule: cancel_all_loop.induct) simp_all

lemma map_of_map_values:
  "map_of (map (\<lambda>(k, v). (k, g v)) d) k = map_option g (map_of d k)"
  by (induction d) auto

lemma cancel_all_tasks_entry:
  "get_task sid m = Some t \<Longrightarrow>
   get_task sid (snd (cancel_all_tasks m)) =
     Some (if status t = PENDING \<or> status t = RUNNING then cancel t else t)"
  by (simp add: cancel_all_tasks_def cancel_all_loop_map get_task_def dict_get_def
      map_of_map_values)

subsection \<open>Creating a task twice\<close>

text \<open>
  C7. \<^verbatim>\<open>create_task\<close> for an id that is in the registry raises the \<^verbatim>\<open>ValueError\<close>
  "already exists" and returns no new registry, so the registry, and the record in it,
  stay as they were; the handler \<^verbatim>\<open>generate_audio_enhanced_async\<close> answers such a
  request with status code 400, \<^verbatim>\<open>success = False\<close>, the registry unchanged and no
  worker started; and after a \<^verbatim>\<open>create_task\<close> that succeeded, a second one for the
  same id raises, whatever its clock value and request.
\<close>

theorem create_task_duplicate:
  "(dict_contains sid (tasks m) \<longrightarrow>
      create_task now sid req m =
        Inl (ValueError (''Task with step_id '' @ sid @ '' already exists'')))
   \<and> (dict_contains (areq_step_id areq) (tasks m) \<longrightarrow>
        (\<exists>resp. generate_audio_enhanced_async mx now areq m = ((Some 400, resp), m, None)
                \<and> \<not> success resp))
   \<and> (create_task now sid req m = Inr (t, m') \<longrightarrow>
        create_task now' sid req' m' =
          Inl (ValueError (''Task with step_id '' @ sid @ '' already exists'')))"
proof (intro conjI impI)
  assume "dict_contains sid (tasks m)"
  then show "create_task now sid req m =
        Inl (ValueError (''Task with step_id '' @ sid @ '' already exists''))"
    by (simp add: create_task_def)
next
  assume "dict_contains (areq_step_id areq) (tasks m)"
  then show "\<exists>resp. generate_audio_enhanced_async mx now areq m = ((Some 400, resp), m, None)
                \<and> \<not> success resp"
    by (simp add: generate_audio_enhanced_async_def create_task_def)
next
  assume a: "create_task now sid req m = Inr (t, m')"
  then have "tasks m' = dict_set sid t (tasks m)"
    by (auto simp: create_task_def Let_def split: if_splits)
  then have "dict_contains sid (tasks m')"
    by (simp add: dict_contains_def map_of_dict_set_same)
  then show "create_task now' sid req' m' =
          Inl (ValueError (''Task with step_id '' @ sid @ '' already exists''))"
    by (simp add: create_task_def)
qed

theorem create_task_duplicate_witness:
  "dict_contains ''a'' (tasks (ex_manager ex_task))
   \<and> create_task 6 ''a'' ex_request (ex_manager ex_task) =
       Inl (ValueError ''Task with step_id a already exists'')
   \<and> (\<exists>resp. generate_audio_enhanced_async 0 6
         \<lparr>areq_step_id = ''a'', areq_text = ''hello'', areq_format = ''wav''\<rparr>
         (ex_manager ex_task) = ((Some 400, resp), ex_manager ex_task, None)
        \<and> \<not> success resp)
   \<and> create_task 5 ''b'' ex_request (ex_manager ex_task) =
       Inr (AsyncTask_init 5 ''b'' ex_request,
            (ex_manager ex_task)
              \<lparr>tasks := [(''a'', ex_task), (''b'', AsyncTask_init 5 ''b'' ex_request)],
               log := [(INFO, [Str ''Created task '', Str ''b''])]\<rparr>)
   \<and> create_task 6 ''b'' ex_request
        ((ex_manager ex_task)
              \<lparr>tasks := [(''a'', ex_task), (''b'', AsyncTask_init 5 ''b'' ex_request)],
               log := [(INFO, [Str ''Created task '', Str ''b''])]\<rparr>) =
       Inl (ValueError ''Task with step_id b already exists'')"
proof -
  let ?m = "ex_manager ex_task"
  let ?m' = "?m\<lparr>tasks := [(''a'', ex_task), (''b'', AsyncTask_init 5 ''b'' ex_request)],
               log := [(INFO, [Str ''Created task '', Str ''b''])]\<rparr>"
  have d: "dict_contains ''a'' (tasks ?m)"
    by (simp add: dict_contains_def ex_manager_def)
  have c: "create_task 5 ''b'' ex_request ?m = Inr (AsyncTask_init 5 ''b'' ex_request, ?m')"
    by (simp add: create_task_def dict_contains_def ex_manager_def Let_def)
  have a: "areq_step_id \<lparr>areq_step_id = ''a'', areq_text = ''hello'', areq_format = ''wav''\<rparr>
             = ''a''"
    by simp
  show ?thesis
    using d c
      create_task_duplicate [of "''a''" ?m 6 ex_request
        "\<lparr>areq_step_id = ''a'', areq_text = ''hello'', areq_format = ''wav''\<rparr>" 0
        "AsyncTask_init 5 ''b'' ex_request" ?m' 6 ex_request]
      create_task_duplicate [of "''b''" ?m 5 ex_request
        "\<lparr>areq_step_id = ''a'', areq_text = ''hello'', areq_format = ''wav''\<rparr>" 0
        "AsyncTask_init 5 ''b'' ex_request" ?m' 6 ex_request]
    by (simp only: a simp_thms append.simps)
qed

subsection \<open>Cancelling a task that has ended\<close>

text \<open>
  C9. For an id in the registry whose record has the status completed, failed or
  cancelled, \<^verbatim>\<open>cancel_task\<close> returns \<^verbatim>\<open>True\<close>; afterwards the record is the old one
  with the flag \<^verbatim>\<open>cancelled\<close> set and nothing else changed (status, result path and
  error message in particular), the other records, the order of the keys and the
  files are the same.
\<close>

theorem cancel_task_terminal:
  assumes "get_task sid m = Some t" and "terminal (status t)"
  shows "fst (cancel_task sid m) = True
    \<and> get_task sid (snd (cancel_task sid m)) = Some (t\<lparr>cancelled := True\<rparr>)
    \<and> (\<forall>sid'. sid' \<noteq> sid \<longrightarrow> get_task sid' (snd (cancel_task sid m)) = get_task sid' m)
    \<and> map fst (tasks (snd (cancel_task sid m))) = map fst (tasks m)
    \<and> files (snd (cancel_task sid m)) = files m"
  using assms
  by (simp add: cancel_task_def get_task_def dict_get_def map_of_dict_set_same
      map_of_dict_set_other keys_dict_set_present cancel_terminal)

theorem cancel_task_terminal_witness:
  "get_task ''a'' (ex_manager (ex_task\<lparr>status := FAILED, error_message := Some ''boom''\<rparr>))
     = Some (ex_task\<lparr>status := FAILED, error_message := Some ''boom''\<rparr>)
   \<and> terminal (status (ex_task\<lparr>status := FAILED, error_message := Some ''boom''\<rparr>))
   \<and> fst (cancel_task ''a''
        (ex_manager (ex_task\<lparr>status := FAILED, error_message := Some ''boom''\<rparr>)))
   \<and> get_task ''a'' (snd (cancel_task ''a''
        (ex_manager (ex_task\<lparr>status := FAILED, error_message := Some ''boom''\<rparr>))))
     = Some (ex_task\<lparr>status := FAILED, error_message := Some ''boom'', cancelled := True\<rparr>)"
proof -
  let ?t = "ex_task\<lparr>status := FAILED, error_message := Some ''boom''\<rparr>"
  have g: "get_task ''a'' (ex_manager ?t) = Some ?t"
    by (simp add: get_task_def dict_get_def ex_manager_def)
  have t: "terminal (status ?t)"
    by (simp add: terminal_def)
  show ?thesis
    using g t cancel_task_terminal [OF g t] by simp
qed

subsection \<open>Runs of the worker\<close>

lemma cancel_fields [simp]:
  "step_id (cancel t) = step_id t"
  "request (cancel t) = request t"
  "created_at (cancel t) = created_at t"
  "started_at (cancel t) = started_at t"
  "completed_at (cancel t) = completed_at t"
  "error_message (cancel t) = error_message t"
  "result_path (cancel t) = result_path t"
  "cancelled (cancel t)"
  by (simp_all add: cancel_def Let_def)

lemma status_cancel:
  "status (cancel t) =
     (if status t = PENDING \<or> status t = RUNNING then CANCELLED else status t)"
  by (simp add: cancel_def Let_def)

lemma result_file_cancel [simp]: "result_file dir (cancel t) = result_file dir t"
  by (simp add: result_file_def)

lemma pc_delete_partial_file [simp]: "pc (delete_partial_file env w) = pc w"
  by (simp add: delete_partial_file_def split: option.splits sum.splits)

lemma task_delete_partial_file [simp]: "task (delete_partial_file env w) = task w"
  by (simp add: delete_partial_file_def split: option.splits sum.splits)

lemma pulls_delete_partial_file [simp]: "pulls (delete_partial_file env w) = pulls w"
  by (simp add: delete_partial_file_def split: option.splits sum.splits)

lemma step_Returned [simp]: "pc w = Returned \<Longrightarrow> run_task_step env dir now w = w"
  by (simp add: run_task_step_def)

lemma step_Uncaught [simp]: "pc w = Uncaught x \<Longrightarrow> run_task_step env dir now w = w"
  by (simp add: run_task_step_def)

lemma failed_message_cancel [simp]: "failed_message (cancel t) e = failed_message t e"
  by (simp add: failed_message_def)

lemma step_id_event [simp]: "step_id (task (apply_event env dir w ev)) = step_id (task w)"
  by (cases ev; cases "pc w")
     (auto simp: run_task_step_def raise_def Let_def
           split: list.splits gen_item.splits infer_result.splits option.splits
                  sum.splits raised.splits)

lemma run_Nil [simp]: "run env dir [] w = w"
  by (simp add: run_def)

lemma run_Cons [simp]:
  "run env dir (ev # evs) w = run env dir evs (apply_event env dir w ev)"
  by (simp add: run_def)

lemma run_append: "run env dir (evs @ evs') w = run env dir evs' (run env dir evs w)"
  by (simp add: run_def)

lemma steps_Nil [simp]: "steps [] = 0"
  by (simp add: steps_def)

lemma steps_Cons [simp]:
  "steps (ev # evs) = (if is_step ev then Suc (steps evs) else steps evs)"
  by (simp add: steps_def)

lemma steps_replicate_Step [simp]: "steps (replicate n (Step now)) = n"
  by (induction n) simp_all

text \<open>A property that every event keeps holds after every run.\<close>

lemma run_invariant:
  assumes "\<And>w ev. P w \<Longrightarrow> P (apply_event env dir w ev)" and "P w"
  shows "P (run env dir evs w)"
  using assms(2) by (induction evs arbitrary: w) (simp_all add: assms(1))

text \<open>
  If moreover every statement of the worker lowers a rank of the program counter, a
  run with at least that many statements brings the rank to 0, however the calls of
  \<^verbatim>\<open>cancel\<close> are interleaved.
\<close>

lemma run_within:
  assumes inv: "\<And>v ev. P v \<Longrightarrow> P (apply_event env dir v ev)"
    and dec: "\<And>v now. P v \<Longrightarrow> rk (pc (run_task_step env dir now v)) \<le> rk (pc v) - 1"
    and "P w" and "rk (pc w) \<le> steps evs"
  shows "P (run env dir evs w) \<and> rk (pc (run env dir evs w)) = 0"
  using assms(3,4)
proof (induction evs arbitrary: w)
  case Nil
  then show ?case by simp
next
  case (Cons ev evs)
  have P': "P (apply_event env dir w ev)" using Cons.prems(1) by (rule inv)
  have "rk (pc (apply_event env dir w ev)) \<le> steps evs"
  proof (cases ev)
    case (Step now)
    with dec[OF Cons.prems(1), of now] Cons.prems(2) show ?thesis by simp
  next
    case Cancel
    with Cons.prems(2) show ?thesis by simp
  next
    case CancelAll
    with Cons.prems(2) show ?thesis by simp
  qed
  with P' show ?case using Cons.IH by simp
qed

lemma step_id_run [simp]: "step_id (task (run env dir evs w)) = step_id (task w)"
  by (induction evs arbitrary: w) simp_all

lemma handler_inv_event:
  "handler_inv env e (pc w) (task w) \<Longrightarrow>
   handler_inv env e (pc (apply_event env dir w ev)) (task (apply_event env dir w ev))"
  by (cases ev; cases "pc w")
     (auto simp: run_task_step_def status_cancel failed_message_def split: option.splits)

lemma handler_inv_rank:
  "handler_inv env e (pc w) (task w) \<Longrightarrow>
   fail_rank (pc (run_task_step env dir now w)) \<le> fail_rank (pc w) - 1"
  by (cases "pc w") (auto simp: run_task_step_def split: option.splits)

lemma handler_inv_end:
  assumes "handler_inv env e (pc w) (task w)" and "fail_rank (pc w) = 0"
  shows "status (task w) = FAILED
       \<and> error_message (task w) = Some (str e) \<and> completed_at (task w) \<noteq> None
       \<and> (pc w = Returned \<or> (\<exists>x. pc w = Uncaught x))
       \<and> (log_format_error env (failed_message (task w) e) = None \<longrightarrow> pc w = Returned)"
  using assms by (cases "pc w") auto

lemmas ex_defs = ex_env_def ex_task_def ex_world_def ex_request_def AsyncTask_init_def
  start_task_def run_task_step_def raise_def cancel_def Let_def result_file_def
  path_join_def ex_worker_def ex_running_task_def ex_segments_def ex_final_def
  ex_boom_def ex_exit_def failed_message_def

subsection \<open>An exception in the worker\<close>

lemma ex_exit_run:
  "run ex_exit ''/tmp'' [Step 6, Step 7, Step 8, Step 9, Step 10, Step 11, Step 12, Step 13]
       (start_task ex_task ex_world) =
   \<lparr>files = Map.empty, log = [], pc = Uncaught (BaseExc ''SystemExit''),
    task = ex_task\<lparr>status := RUNNING, started_at := Some 7\<rparr>, pulls = 1\<rparr>"
  by (simp add: ex_defs)

text \<open>
  The claim C6 as stated fails: line 179 is \<^verbatim>\<open>except Exception\<close>. When the inference
  raises \<^verbatim>\<open>SystemExit\<close>, which is no instance of \<^verbatim>\<open>Exception\<close>, the handler is not
  entered: the worker ends at its fourth statement, and after eight the status is
  still running, with no error message and no \<^verbatim>\<open>completed_at\<close>.
\<close>

theorem worker_exception_counterexample:
  "inference ex_exit = [Raise (BaseExc ''SystemExit'')]
   \<and> pc (run ex_exit ''/tmp''
        [Step 6, Step 7, Step 8, Step 9, Step 10, Step 11, Step 12, Step 13]
        (start_task ex_task ex_world)) = Uncaught (BaseExc ''SystemExit'')
   \<and> status (task (run ex_exit ''/tmp''
        [Step 6, Step 7, Step 8, Step 9, Step 10, Step 11, Step 12, Step 13]
        (start_task ex_task ex_world))) = RUNNING
   \<and> error_message (task (run ex_exit ''/tmp''
        [Step 6, Step 7, Step 8, Step 9, Step 10, Step 11, Step 12, Step 13]
        (start_task ex_task ex_world))) = None
   \<and> completed_at (task (run ex_exit ''/tmp''
        [Step 6, Step 7, Step 8, Step 9, Step 10, Step 11, Step 12, Step 13]
        (start_task ex_task ex_world))) = None"
  by (simp only: ex_exit_run)
     (simp add: ex_exit_def ex_env_def ex_task_def AsyncTask_init_def)

text \<open>
  C6, amended. Let the next statement of the worker be one that raises an instance
  \<open>e\<close> of \<^verbatim>\<open>Exception\<close>: the \<^verbatim>\<open>next\<close> of the inference generator (line 131),
  \<^verbatim>\<open>sf.write\<close> (line 160), or the opening or writing of the result file (lines 167
  and 168). Then the handler of line 179 catches it: however calls of \<^verbatim>\<open>cancel\<close> are
  interleaved, after five statements of the worker the status is failed, the error
  message is \<^verbatim>\<open>str(e)\<close>, \<^verbatim>\<open>completed_at\<close> is set and the worker has ended; it has
  returned if the logger does not refuse the message of line 183. Nothing reaches
  the caller of \<^verbatim>\<open>start_task\<close>, which has returned before the worker executed anything.
\<close>

theorem worker_exception_caught:
  assumes raising:
    "(\<exists>rest. pc w = L131 (Raise (Exc e) # rest))
     \<or> (\<exists>audio. pc w = L160 audio
          \<and> sf_write env audio (sample_rate env) (format (request (task w))) = Inl (Exc e))
     \<or> (\<exists>buffer. pc w = L167 buffer
          \<and> (open_error env (result_file dir (task w)) = Some (Exc e)
             \<or> open_error env (result_file dir (task w)) = None
               \<and> write_error env (result_file dir (task w)) = Some (Exc e)))"
    and enough: "5 \<le> steps evs"
  shows "status (task (run env dir evs w)) = FAILED
    \<and> error_message (task (run env dir evs w)) = Some (str e)
    \<and> completed_at (task (run env dir evs w)) \<noteq> None
    \<and> (pc (run env dir evs w) = Returned \<or> (\<exists>x. pc (run env dir evs w) = Uncaught x))
    \<and> (log_format_error env (failed_message (task w) e) = None \<longrightarrow>
          pc (run env dir evs w) = Returned)"
proof -
  define R where "R = (\<lambda>w::Worker.
     (\<exists>rest. pc w = L131 (Raise (Exc e) # rest))
     \<or> (\<exists>audio. pc w = L160 audio
          \<and> sf_write env audio (sample_rate env) (format (request (task w))) = Inl (Exc e))
     \<or> (\<exists>buffer. pc w = L167 buffer
          \<and> (open_error env (result_file dir (task w)) = Some (Exc e)
             \<or> open_error env (result_file dir (task w)) = None
               \<and> write_error env (result_file dir (task w)) = Some (Exc e))))"
  define P where "P = (\<lambda>w::Worker. R w \<or> handler_inv env e (pc w) (task w))"
  have step: "P (apply_event env dir v ev)" if "P v" for v :: Worker and ev
  proof (cases "handler_inv env e (pc v) (task v)")
    case True
    then show ?thesis unfolding P_def using handler_inv_event by blast
  next
    case False
    with that show ?thesis
      unfolding P_def R_def
      by (cases ev) (auto simp: run_task_step_def raise_def Let_def)
  qed
  have dec: "fail_rank (pc (run_task_step env dir now v)) \<le> fail_rank (pc v) - 1"
    if "P v" for v :: Worker and now
  proof (cases "handler_inv env e (pc v) (task v)")
    case True
    then show ?thesis by (rule handler_inv_rank)
  next
    case False
    with that show ?thesis
      unfolding P_def R_def
      by (auto simp: run_task_step_def raise_def Let_def)
  qed
  have Pw: "P w" unfolding P_def R_def using raising by blast
  have "fail_rank (pc w) \<le> 5" using raising by auto
  with enough have "fail_rank (pc w) \<le> steps evs" by simp
  from run_within[of P env dir fail_rank, OF step dec Pw this]
  have end1: "P (run env dir evs w)" and end2: "fail_rank (pc (run env dir evs w)) = 0"
    by simp_all
  from end2 have "\<not> R (run env dir evs w)" unfolding R_def by auto
  with end1 have "handler_inv env e (pc (run env dir evs w)) (task (run env dir evs w))"
    by (simp add: P_def)
  from handler_inv_end[OF this end2] show ?thesis
    by (simp add: failed_message_def)
qed

theorem worker_exception_caught_witness:
  "pc (ex_worker (L131 [Raise (Exc (OtherException ''boom''))]) ex_running_task)
     = L131 [Raise (Exc (OtherException ''boom''))]
   \<and> 5 \<le> steps (replicate 5 (Step 9))
   \<and> log_format_error ex_boom
        (failed_message
           (task (ex_worker (L131 [Raise (Exc (OtherException ''boom''))]) ex_running_task))
           (OtherException ''boom'')) = None
   \<and> pc (run ex_boom ''/tmp'' (replicate 5 (Step 9))
        (ex_worker (L131 [Raise (Exc (OtherException ''boom''))]) ex_running_task)) = Returned
   \<and> status (task (run ex_boom ''/tmp'' (replicate 5 (Step 9))
        (ex_worker (L131 [Raise (Exc (OtherException ''boom''))]) ex_running_task))) = FAILED
   \<and> error_message (task (run ex_boom ''/tmp'' (replicate 5 (Step 9))
        (ex_worker (L131 [Raise (Exc (OtherException ''boom''))]) ex_running_task)))
       = Some ''boom''"
proof -
  let ?w = "ex_worker (L131 [Raise (Exc (OtherException ''boom''))]) ex_running_task"
  have p: "pc ?w = L131 [Raise (Exc (OtherException ''boom''))]"
    by (simp add: ex_worker_def)
  have r: "(\<exists>rest. pc ?w = L131 (Raise (Exc (OtherException ''boom'')) # rest))
     \<or> (\<exists>audio. pc ?w = L160 audio
          \<and> sf_write ex_boom audio (sample_rate ex_boom) (format (request (task ?w)))
              = Inl (Exc (OtherException ''boom'')))
     \<or> (\<exists>buffer. pc ?w = L167 buffer
          \<and> (open_error ex_boom (result_file ''/tmp'' (task ?w))
                = Some (Exc (OtherException ''boom''))
             \<or> open_error ex_boom (result_file ''/tmp'' (task ?w)) = None
               \<and> write_error ex_boom (result_file ''/tmp'' (task ?w))
                   = Some (Exc (OtherException ''boom''))))"
    using p by simp
  have s: "5 \<le> steps (replicate 5 (Step 9))" by simp
  have l: "log_format_error ex_boom (failed_message (task ?w) (OtherException ''boom''))
             = None"
    by (simp add: ex_defs)
  show ?thesis
    using p s l worker_exception_caught [OF r s] by simp
qed

subsection \<open>An inference without a final output\<close>

text \<open>From the exhausted generator to the end of the worker.\<close>

lemma no_audio_run:
  assumes "pc w = L131 []" and enough: "6 \<le> steps evs"
  shows "status (task (run env dir evs w)) = FAILED
    \<and> error_message (task (run env dir evs w)) = Some ''No audio generated''
    \<and> completed_at (task (run env dir evs w)) \<noteq> None
    \<and> (pc (run env dir evs w) = Returned \<or> (\<exists>x. pc (run env dir evs w) = Uncaught x))
    \<and> (log_format_error env
          (failed_message (task w) (ValueError ''No audio generated'')) = None \<longrightarrow>
          pc (run env dir evs w) = Returned)"
proof -
  define e where "e = ValueError ''No audio generated''"
  define P where "P = (\<lambda>w::Worker.
     pc w = L131 [] \<or> pc w = L152 None \<or> handler_inv env e (pc w) (task w))"
  have step: "P (apply_event env dir v ev)" if "P v" for v :: Worker and ev
  proof (cases "handler_inv env e (pc v) (task v)")
    case True
    then show ?thesis unfolding P_def using handler_inv_event by blast
  next
    case False
    with that show ?thesis
      unfolding P_def
      by (cases ev) (auto simp: run_task_step_def raise_def e_def)
  qed
  have dec: "fail_rank (pc (run_task_step env dir now v)) \<le> fail_rank (pc v) - 1"
    if "P v" for v :: Worker and now
  proof (cases "handler_inv env e (pc v) (task v)")
    case True
    then show ?thesis by (rule handler_inv_rank)
  next
    case False
    with that show ?thesis
      unfolding P_def by (auto simp: run_task_step_def raise_def)
  qed
  have Pw: "P w" unfolding P_def using assms(1) by blast
  have "fail_rank (pc w) \<le> steps evs" using assms by simp
  from run_within[of P env dir fail_rank, OF step dec Pw this]
  have end1: "P (run env dir evs w)" and end2: "fail_rank (pc (run env dir evs w)) = 0"
    by simp_all
  from end1 end2 have "handler_inv env e (pc (run env dir evs w)) (task (run env dir evs w))"
    by (auto simp: P_def)
  from handler_inv_end[OF this end2] show ?thesis
    by (simp add: e_def failed_message_def)
qed

text \<open>
  The loop over a generator that yields segments only, while the flag is not set:
  two statements for each segment, and the task is not touched.
\<close>

lemma segments_consumed:
  assumes "\<forall>item\<in>set gen. \<exists>b. item = Yield (Segment b)"
    and "\<not> cancelled (task w)" and "pc w = L131 gen"
    and "\<forall>ev\<in>set evs. is_step ev" and "length evs = 2 * length gen"
  shows "pc (run env dir evs w) = L131 []
       \<and> task (run env dir evs w) = task w
       \<and> pulls (run env dir evs w) = pulls w + length gen
       \<and> files (run env dir evs w) = files w"
  using assms
proof (induction gen arbitrary: w evs)
  case Nil
  then show ?case by simp
next
  case (Cons item gen)
  from Cons.prems(1) obtain b where item: "item = Yield (Segment b)" by auto
  from Cons.prems(5) obtain ev1 ev2 evs' where evs: "evs = ev1 # ev2 # evs'"
    by (cases evs; cases "tl evs") auto
  from Cons.prems(4) evs obtain n1 n2 where ev: "ev1 = Step n1" "ev2 = Step n2"
    by (cases ev1; cases ev2) auto
  let ?w = "run env dir [ev1, ev2] w"
  have two: "pc ?w = L131 gen \<and> task ?w = task w \<and> pulls ?w = pulls w + 1
     \<and> files ?w = files w"
    using Cons.prems(2,3) item ev by (simp add: run_task_step_def)
  have "pc (run env dir evs' ?w) = L131 []
       \<and> task (run env dir evs' ?w) = task ?w
       \<and> pulls (run env dir evs' ?w) = pulls ?w + length gen
       \<and> files (run env dir evs' ?w) = files ?w"
  proof (rule Cons.IH)
    show "\<forall>item\<in>set gen. \<exists>b. item = Yield (Segment b)" using Cons.prems(1) by simp
    show "\<not> cancelled (task ?w)" using two Cons.prems(2) by simp
    show "pc ?w = L131 gen" using two by simp
    show "\<forall>ev\<in>set evs'. is_step ev" using Cons.prems(4) evs by simp
    show "length evs' = 2 * length gen" using Cons.prems(5) evs by simp
  qed
  moreover have "run env dir evs w = run env dir evs' ?w" using evs by simp
  ultimately show ?case using two by simp
qed

text \<open>The first three statements, while the flag is not set.\<close>

lemma start_to_loop:
  assumes "\<not> cancelled t" and "\<forall>ev\<in>set evs. is_step ev" and "length evs = 3"
  shows "pc (run env dir evs (start_task t wld)) = L131 (inference env)
       \<and> \<not> cancelled (task (run env dir evs (start_task t wld)))
       \<and> step_id (task (run env dir evs (start_task t wld))) = step_id t
       \<and> pulls (run env dir evs (start_task t wld)) = 0"
proof -
  from assms(3) obtain ev1 ev2 ev3 where evs: "evs = [ev1, ev2, ev3]"
    by (cases evs; cases "tl evs"; cases "tl (tl evs)") auto
  from assms(2) evs obtain n1 n2 n3 where "ev1 = Step n1" "ev2 = Step n2" "ev3 = Step n3"
    by (cases ev1; cases ev2; cases ev3) auto
  with evs assms(1) show ?thesis
    by (simp add: run_task_step_def start_task_def)
qed

lemma segments_only_run:
  assumes segs: "\<forall>item\<in>set (inference env). \<exists>b. item = Yield (Segment b)"
    and flag: "\<not> cancelled t"
    and only: "\<forall>ev\<in>set evs1. is_step ev"
    and len: "length evs1 = 2 * length (inference env) + 3"
    and enough: "6 \<le> steps evs2"
  shows "pc (run env dir evs1 (start_task t wld)) = L131 []
    \<and> pulls (run env dir evs1 (start_task t wld)) = length (inference env)
    \<and> status (task (run env dir (evs1 @ evs2) (start_task t wld))) = FAILED
    \<and> error_message (task (run env dir (evs1 @ evs2) (start_task t wld)))
        = Some ''No audio generated''
    \<and> completed_at (task (run env dir (evs1 @ evs2) (start_task t wld))) \<noteq> None
    \<and> (pc (run env dir (evs1 @ evs2) (start_task t wld)) = Returned
        \<or> (\<exists>x. pc (run env dir (evs1 @ evs2) (start_task t wld)) = Uncaught x))
    \<and> (log_format_error env
          (failed_message t (ValueError ''No audio generated'')) = None \<longrightarrow>
          pc (run env dir (evs1 @ evs2) (start_task t wld)) = Returned)"
proof -
  let ?a = "take 3 evs1" and ?b = "drop 3 evs1"
  let ?w3 = "run env dir ?a (start_task t wld)"
  let ?w1 = "run env dir evs1 (start_task t wld)"
  have split: "evs1 = ?a @ ?b" by simp
  have a: "\<forall>ev\<in>set ?a. is_step ev" using only by (auto dest: in_set_takeD)
  have b: "\<forall>ev\<in>set ?b. is_step ev" using only by (auto dest: in_set_dropD)
  have la: "length ?a = 3" using len by simp
  have lb: "length ?b = 2 * length (inference env)" using len by simp
  from start_to_loop[OF flag a la, where env = env and dir = dir and wld = wld]
  have w3: "pc ?w3 = L131 (inference env)" "\<not> cancelled (task ?w3)"
    "step_id (task ?w3) = step_id t" "pulls ?w3 = 0"
    by simp_all
  have w1: "?w1 = run env dir ?b ?w3"
    using run_append[of env dir ?a ?b "start_task t wld"] by simp
  from segments_consumed[OF segs w3(2) w3(1) b lb, where env = env and dir = dir]
  have loop: "pc ?w1 = L131 []" "pulls ?w1 = length (inference env)"
    "task ?w1 = task ?w3"
    using w1 w3(4) by simp_all
  have sid: "failed_message (task ?w1) (ValueError ''No audio generated'')
     = failed_message t (ValueError ''No audio generated'')"
    using loop(3) w3(3) by (simp add: failed_message_def)
  have "run env dir (evs1 @ evs2) (start_task t wld) = run env dir evs2 ?w1"
    by (rule run_append)
  with no_audio_run[OF loop(1) enough, where env = env and dir = dir] loop(1,2) sid
  show ?thesis by simp
qed

lemma ex_segments_prefix:
  "run ex_segments ''/tmp'' [Step 6, Step 7, Step 8, Step 9, Step 10]
       (start_task ex_task ex_world) =
   \<lparr>files = Map.empty, log = [], pc = L131 [],
    task = ex_task\<lparr>status := RUNNING, started_at := Some 7\<rparr>, pulls = 1\<rparr>"
  by (simp add: ex_defs)

text \<open>
  The claim C8 as stated fails: the inference of \<open>ex_segments\<close> yields one segment
  and ends; the worker, run from \<^verbatim>\<open>start_task\<close> to its return, leaves the status
  failed with the message "No audio generated", which is not "no result produced".
\<close>

theorem missing_final_counterexample:
  "inference ex_segments = [Yield (Segment [1, 2])]
   \<and> pc (run ex_segments ''/tmp'' ([Step 6, Step 7, Step 8, Step 9, Step 10]
            @ replicate 6 (Step 11)) (start_task ex_task ex_world)) = Returned
   \<and> status (task (run ex_segments ''/tmp'' ([Step 6, Step 7, Step 8, Step 9, Step 10]
            @ replicate 6 (Step 11)) (start_task ex_task ex_world))) = FAILED
   \<and> error_message (task (run ex_segments ''/tmp'' ([Step 6, Step 7, Step 8, Step 9, Step 10]
            @ replicate 6 (Step 11)) (start_task ex_task ex_world)))
       = Some ''No audio generated''
   \<and> error_message (task (run ex_segments ''/tmp'' ([Step 6, Step 7, Step 8, Step 9, Step 10]
            @ replicate 6 (Step 11)) (start_task ex_task ex_world)))
       \<noteq> Some ''no result produced''"
proof -
  let ?w = "run ex_segments ''/tmp'' [Step 6, Step 7, Step 8, Step 9, Step 10]
       (start_task ex_task ex_world)"
  have p: "pc ?w = L131 []" by (simp only: ex_segments_prefix) simp
  have f: "6 \<le> steps (replicate 6 (Step 11))" by simp
  have l: "log_format_error ex_segments
             (failed_message (task ?w) (ValueError ''No audio generated'')) = None"
    by (simp only: ex_segments_prefix) (simp add: ex_defs)
  show ?thesis
    using no_audio_run [OF p f, where env = ex_segments and dir = "''/tmp''"] l
    by (simp add: run_append) (simp add: ex_segments_def ex_env_def)
qed

text \<open>
  C8, amended. Let the inference of a job yield segments only, any number of them,
  and no final output, and let the flag \<^verbatim>\<open>cancelled\<close> not be set before the worker has
  consumed the sequence: the worker, started by \<^verbatim>\<open>start_task\<close>, executes its first
  three statements and two for each segment without a call of \<^verbatim>\<open>cancel\<close> in between.
  It then stands at line 131 with the generator exhausted, having asked it for every
  item. From there, however calls of \<^verbatim>\<open>cancel\<close> are interleaved, after six more
  statements of the worker the status is failed, the error message is
  "No audio generated", \<^verbatim>\<open>completed_at\<close> is set and the worker has ended; it has
  returned if the logger does not refuse the message of line 183.
\<close>

theorem missing_final_fails:
  assumes "\<forall>item\<in>set (inference env). \<exists>b. item = Yield (Segment b)"
    and "\<not> cancelled t"
    and "\<forall>ev\<in>set evs1. is_step ev"
    and "length evs1 = 2 * length (inference env) + 3"
    and "6 \<le> steps evs2"
  shows "pc (run env dir evs1 (start_task t wld)) = L131 []
    \<and> pulls (run env dir evs1 (start_task t wld)) = length (inference env)
    \<and> status (task (run env dir (evs1 @ evs2) (start_task t wld))) = FAILED
    \<and> error_message (task (run env dir (evs1 @ evs2) (start_task t wld)))
        = Some ''No audio generated''
    \<and> completed_at (task (run env dir (evs1 @ evs2) (start_task t wld))) \<noteq> None
    \<and> (pc (run env dir (evs1 @ evs2) (start_task t wld)) = Returned
        \<or> (\<exists>x. pc (run env dir (evs1 @ evs2) (start_task t wld)) = Uncaught x))
    \<and> (log_format_error env
          (failed_message t (ValueError ''No audio generated'')) = None \<longrightarrow>
          pc (run env dir (evs1 @ evs2) (start_task t wld)) = Returned)"
  using assms by (rule segments_only_run)

theorem missing_final_fails_witness:
  "(\<exists>b1 b2 b3. inference ex_three_segments
        = [Yield (Segment b1), Yield (Segment b2), Yield (Segment b3)])
   \<and> \<not> cancelled ex_task
   \<and> length (replicate 9 (Step 6)) = 2 * length (inference ex_three_segments) + 3
   \<and> 6 \<le> steps ([Cancel] @ replicate 6 (Step 7))
   \<and> log_format_error ex_three_segments
        (failed_message ex_task (ValueError ''No audio generated'')) = None
   \<and> pulls (run ex_three_segments ''/tmp'' (replicate 9 (Step 6))
        (start_task ex_task ex_world)) = 3
   \<and> pc (run ex_three_segments ''/tmp''
        (replicate 9 (Step 6) @ [Cancel] @ replicate 6 (Step 7))
        (start_task ex_task ex_world)) = Returned
   \<and> status (task (run ex_three_segments ''/tmp''
        (replicate 9 (Step 6) @ [Cancel] @ replicate 6 (Step 7))
        (start_task ex_task ex_world))) = FAILED
   \<and> error_message (task (run ex_three_segments ''/tmp''
        (replicate 9 (Step 6) @ [Cancel] @ replicate 6 (Step 7))
        (start_task ex_task ex_world))) = Some ''No audio generated''"
proof -
  have i: "inference ex_three_segments
     = [Yield (Segment [1]), Yield (Segment [2]), Yield (Segment [3])]"
    by (simp add: ex_three_segments_def ex_env_def)
  have s: "\<forall>item\<in>set (inference ex_three_segments). \<exists>b. item = Yield (Segment b)"
    by (simp add: i)
  have c: "\<not> cancelled ex_task" by (simp add: ex_task_def AsyncTask_init_def)
  have o: "\<forall>ev\<in>set (replicate 9 (Step 6)). is_step ev" by simp
  have n: "length (replicate 9 (Step 6)) = 2 * length (inference ex_three_segments) + 3"
    by (simp add: i)
  have m: "6 \<le> steps ([Cancel] @ replicate 6 (Step 7))" by simp
  have l: "log_format_error ex_three_segments
        (failed_message ex_task (ValueError ''No audio generated'')) = None"
    by (simp add: ex_three_segments_def ex_defs)
  have x: "\<exists>b1 b2 b3. inference ex_three_segments
        = [Yield (Segment b1), Yield (Segment b2), Yield (Segment b3)]"
    using i by blast
  show ?thesis
    using x c n m l missing_final_fails [OF s c o n m, where dir = "''/tmp''" and wld = ex_world] i
    by simp
qed

subsection \<open>The task at every point of a run\<close>

lemma pc_inv_event:
  "pc_inv (pc w) (task w) \<Longrightarrow>
   pc_inv (pc (apply_event env dir w ev)) (task (apply_event env dir w ev))"
  by (cases ev; cases "pc w")
     (auto simp: run_task_step_def raise_def Let_def fresh_def live_def status_cancel
           split: list.splits gen_item.splits infer_result.splits option.splits sum.splits
                  raised.splits)

lemma pc_inv_start:
  "pc_inv (pc (start_task (AsyncTask_init now sid req) wld))
          (task (start_task (AsyncTask_init now sid req) wld))"
  by (simp add: start_task_def AsyncTask_init_def fresh_def)

lemma pc_inv_reachable:
  "pc_inv (pc (run env dir evs (start_task (AsyncTask_init now sid req) wld)))
          (task (run env dir evs (start_task (AsyncTask_init now sid req) wld)))"
  by (rule run_invariant[where P = "\<lambda>w. pc_inv (pc w) (task w)"])
     (simp_all add: pc_inv_event pc_inv_start)


text \<open>Concrete runs, evaluated.\<close>

lemma ex_final_L160:
  "run ex_final ''/tmp'' ex_to_L160 (start_task ex_task ex_world) =
   \<lparr>files = Map.empty, log = [], pc = L160 [1, 2],
    task = ex_task\<lparr>status := RUNNING, started_at := Some 7\<rparr>, pulls = 1\<rparr>"
  by (simp add: ex_to_L160_def ex_defs)


lemma ex_final_cancelled:
  "run ex_final ''/tmp'' (ex_to_L160 @ [Cancel]) (start_task ex_task ex_world) =
   \<lparr>files = Map.empty, log = [], pc = L160 [1, 2],
    task = ex_task\<lparr>status := CANCELLED, started_at := Some 7, cancelled := True\<rparr>,
    pulls = 1\<rparr>"
  by (simp only: run_append ex_final_L160) (simp add: ex_defs)

lemma ex_final_cancelled_completed:
  "run ex_final ''/tmp'' (ex_to_L160 @ [Cancel] @ ex_to_L172) (start_task ex_task ex_world) =
   \<lparr>files = [''/tmp/a.wav'' \<mapsto> [1, 2]], log = [], pc = L172,
    task = ex_task\<lparr>status := COMPLETED, started_at := Some 7, cancelled := True,
                   result_path := Some ''/tmp/a.wav''\<rparr>,
    pulls = 1\<rparr>"
proof -
  have "run ex_final ''/tmp'' (ex_to_L160 @ [Cancel] @ ex_to_L172) (start_task ex_task ex_world)
      = run ex_final ''/tmp'' ex_to_L172
          (run ex_final ''/tmp'' (ex_to_L160 @ [Cancel]) (start_task ex_task ex_world))"
    by (simp add: run_append)
  then show ?thesis
    by (simp only: ex_final_cancelled) (simp add: ex_to_L172_def ex_defs)
qed

lemma ex_final_all:
  "run ex_final ''/tmp'' ex_all (start_task ex_task ex_world) =
   \<lparr>files = [''/tmp/a.wav'' \<mapsto> [1, 2]],
    log = [(INFO, [Str ''Task '', Str ''a'', Str '' completed in '', Flt 9, Str ''s''])],
    pc = Returned,
    task = ex_task\<lparr>status := COMPLETED, started_at := Some 7, completed_at := Some 16,
                   result_path := Some ''/tmp/a.wav''\<rparr>,
    pulls = 1\<rparr>"
  by (simp add: ex_all_def ex_defs)

lemma ex_boom_L181:
  "run ex_boom ''/tmp'' [Step 6, Step 7, Step 8, Step 9, Step 10] (start_task ex_task ex_world) =
   \<lparr>files = Map.empty, log = [], pc = L181 (OtherException ''boom''),
    task = ex_task\<lparr>status := FAILED, started_at := Some 7\<rparr>, pulls = 1\<rparr>"
  by (simp add: ex_defs)

lemma ex_boom_L182:
  "run ex_boom ''/tmp'' [Step 6, Step 7, Step 8, Step 9, Step 10, Step 11]
     (start_task ex_task ex_world) =
   \<lparr>files = Map.empty, log = [], pc = L182 (OtherException ''boom''),
    task = ex_task\<lparr>status := FAILED, started_at := Some 7, error_message := Some ''boom''\<rparr>,
    pulls = 1\<rparr>"
  by (simp add: ex_defs)


subsection \<open>Result path, error message and status\<close>




subsection \<open>A status that has been reached\<close>

lemma final_status_event:
  assumes "pc_inv (pc w) (task w)"
    and "status (task w) = COMPLETED \<or> status (task w) = FAILED"
  shows "status (task (apply_event env dir w ev)) = status (task w)"
  using assms
  by (cases ev; cases "pc w")
     (auto simp: run_task_step_def raise_def Let_def fresh_def live_def status_cancel
           split: option.splits raised.splits)

lemma completed_event:
  assumes "pc_inv (pc w) (task w)" and "status (task w) = COMPLETED"
  shows "result_path (task (apply_event env dir w ev)) = result_path (task w)
       \<and> error_message (task (apply_event env dir w ev)) = error_message (task w)"
  using assms
  by (cases ev; cases "pc w")
     (auto simp: run_task_step_def raise_def Let_def fresh_def live_def status_cancel
           split: option.splits raised.splits)

lemma Returned_event:
  assumes "pc_inv (pc w) (task w)" and "pc w = Returned"
  shows "pc (apply_event env dir w ev) = Returned
       \<and> status (task (apply_event env dir w ev)) = status (task w)
       \<and> result_path (task (apply_event env dir w ev)) = result_path (task w)
       \<and> error_message (task (apply_event env dir w ev)) = error_message (task w)"
  using assms
  by (cases ev) (auto simp: status_cancel fresh_def)

lemma cancel_events_terminal:
  assumes "terminal (status (task w))" and "steps evs = 0"
  shows "pc (run env dir evs w) = pc w
       \<and> status (task (run env dir evs w)) = status (task w)
       \<and> result_path (task (run env dir evs w)) = result_path (task w)
       \<and> error_message (task (run env dir evs w)) = error_message (task w)"
  using assms
proof (induction evs arbitrary: w)
  case Nil
  then show ?case by simp
next
  case (Cons ev evs)
  from Cons.prems have ns: "\<not> is_step ev" and z: "steps evs = 0"
    by (auto split: if_splits)
  from ns Cons.prems(1) have one:
    "pc (apply_event env dir w ev) = pc w
     \<and> status (task (apply_event env dir w ev)) = status (task w)
     \<and> result_path (task (apply_event env dir w ev)) = result_path (task w)
     \<and> error_message (task (apply_event env dir w ev)) = error_message (task w)"
    by (cases ev) (auto simp: status_cancel terminal_def)
  with Cons.prems(1) have "terminal (status (task (apply_event env dir w ev)))" by simp
  from Cons.IH[OF this z] one show ?case by simp
qed

text \<open>
  The claim C2 as stated fails, in two ways. With an inference that raises, the
  worker sets the status failed (line 180) and, with its next statement, changes the
  error message from \<^verbatim>\<open>None\<close> to "boom" (line 181). With an inference that yields the
  final output, a call of \<^verbatim>\<open>cancel\<close> that comes when the worker is past its last
  checkpoint sets the status cancelled; four statements later the worker has set the
  result path and the status completed.
\<close>

theorem terminal_status_counterexample:
  "status (task (run ex_boom ''/tmp'' [Step 6, Step 7, Step 8, Step 9, Step 10]
       (start_task ex_task ex_world))) = FAILED
   \<and> error_message (task (run ex_boom ''/tmp'' [Step 6, Step 7, Step 8, Step 9, Step 10]
       (start_task ex_task ex_world))) = None
   \<and> error_message (task (run ex_boom ''/tmp''
       [Step 6, Step 7, Step 8, Step 9, Step 10, Step 11]
       (start_task ex_task ex_world))) = Some ''boom''
   \<and> status (task (run ex_final ''/tmp'' (ex_to_L160 @ [Cancel])
       (start_task ex_task ex_world))) = CANCELLED
   \<and> result_path (task (run ex_final ''/tmp'' (ex_to_L160 @ [Cancel])
       (start_task ex_task ex_world))) = None
   \<and> status (task (run ex_final ''/tmp'' (ex_to_L160 @ [Cancel] @ ex_to_L172)
       (start_task ex_task ex_world))) = COMPLETED
   \<and> result_path (task (run ex_final ''/tmp'' (ex_to_L160 @ [Cancel] @ ex_to_L172)
       (start_task ex_task ex_world))) = Some ''/tmp/a.wav''"
  by (simp only: ex_boom_L181 ex_boom_L182 ex_final_cancelled ex_final_cancelled_completed)
     (simp add: ex_task_def AsyncTask_init_def)

text \<open>
  C2, amended. For a task created by \<^verbatim>\<open>AsyncTask.__init__\<close>, at every point \<open>w\<close> of a
  run and for every continuation \<open>evs'\<close> of the run (a call of \<^verbatim>\<open>cancel\<close> being one
  step): a status completed or failed never changes again; with the status completed,
  the result path and the error message never change again; calls of \<^verbatim>\<open>cancel_task\<close>
  and \<^verbatim>\<open>cancel_all_tasks\<close> alone change neither the status nor the result path nor
  the error message of a task whose status is completed, failed or cancelled; and
  once the worker has returned, the status is one of the three and no event changes
  status, result path or error message. Nothing is said of a status cancelled that
  \<^verbatim>\<open>cancel\<close> has set while the worker has not returned.
\<close>

theorem terminal_status_kept:
  assumes "w = run env dir evs (start_task (AsyncTask_init now sid req) wld)"
  shows "(status (task w) = COMPLETED \<or> status (task w) = FAILED \<longrightarrow>
            status (task (run env dir evs' w)) = status (task w))
    \<and> (status (task w) = COMPLETED \<longrightarrow>
            result_path (task (run env dir evs' w)) = result_path (task w)
          \<and> error_message (task (run env dir evs' w)) = error_message (task w))
    \<and> (terminal (status (task w)) \<and> steps evs' = 0 \<longrightarrow>
            status (task (run env dir evs' w)) = status (task w)
          \<and> result_path (task (run env dir evs' w)) = result_path (task w)
          \<and> error_message (task (run env dir evs' w)) = error_message (task w))
    \<and> (pc w = Returned \<longrightarrow>
            terminal (status (task w))
          \<and> status (task (run env dir evs' w)) = status (task w)
          \<and> result_path (task (run env dir evs' w)) = result_path (task w)
          \<and> error_message (task (run env dir evs' w)) = error_message (task w))"
proof -
  have inv: "pc_inv (pc w) (task w)" unfolding assms by (rule pc_inv_reachable)
  have a: "status (task (run env dir evs' w)) = status (task w)"
    if "status (task w) = COMPLETED \<or> status (task w) = FAILED"
  proof -
    define P where
      "P = (\<lambda>v::Worker. pc_inv (pc v) (task v) \<and> status (task v) = status (task w))"
    have "P (run env dir evs' w)"
    proof (rule run_invariant)
      show "P w" using inv by (simp add: P_def)
    next
      fix v ev assume "P v"
      then show "P (apply_event env dir v ev)"
        unfolding P_def
        using that final_status_event[of v env dir ev] pc_inv_event[of v env dir ev]
        by auto
    qed
    then show ?thesis by (simp add: P_def)
  qed
  have b: "result_path (task (run env dir evs' w)) = result_path (task w)
          \<and> error_message (task (run env dir evs' w)) = error_message (task w)"
    if "status (task w) = COMPLETED"
  proof -
    define P where "P = (\<lambda>v::Worker. pc_inv (pc v) (task v) \<and> status (task v) = COMPLETED
        \<and> result_path (task v) = result_path (task w)
        \<and> error_message (task v) = error_message (task w))"
    have "P (run env dir evs' w)"
    proof (rule run_invariant)
      show "P w" using inv that by (simp add: P_def)
    next
      fix v ev assume "P v"
      then show "P (apply_event env dir v ev)"
        unfolding P_def
        using final_status_event[of v env dir ev] completed_event[of v env dir ev]
          pc_inv_event[of v env dir ev]
        by auto
    qed
    then show ?thesis by (simp add: P_def)
  qed
  have d: "terminal (status (task w))
          \<and> status (task (run env dir evs' w)) = status (task w)
          \<and> result_path (task (run env dir evs' w)) = result_path (task w)
          \<and> error_message (task (run env dir evs' w)) = error_message (task w)"
    if "pc w = Returned"
  proof -
    define P where "P = (\<lambda>v::Worker. pc_inv (pc v) (task v) \<and> pc v = Returned
        \<and> status (task v) = status (task w)
        \<and> result_path (task v) = result_path (task w)
        \<and> error_message (task v) = error_message (task w))"
    have "P (run env dir evs' w)"
    proof (rule run_invariant)
      show "P w" using inv that by (simp add: P_def)
    next
      fix v ev assume "P v"
      then show "P (apply_event env dir v ev)"
        unfolding P_def
        using Returned_event[of v env dir ev] pc_inv_event[of v env dir ev]
        by auto
    qed
    moreover have "terminal (status (task w))"
      using inv that by (auto simp: terminal_def)
    ultimately show ?thesis by (simp add: P_def)
  qed
  show ?thesis
    using a b d cancel_events_terminal[of w evs' env dir] by blast
qed

theorem terminal_status_kept_witness:
  "status (task (run ex_final ''/tmp'' ex_all
      (start_task (AsyncTask_init 5 ''a'' ex_request) ex_world))) = COMPLETED
   \<and> pc (run ex_final ''/tmp'' ex_all
      (start_task (AsyncTask_init 5 ''a'' ex_request) ex_world)) = Returned
   \<and> steps [Cancel, CancelAll] = 0
   \<and> status (task (run ex_final ''/tmp'' [Cancel, CancelAll]
       (run ex_final ''/tmp'' ex_all
          (start_task (AsyncTask_init 5 ''a'' ex_request) ex_world)))) = COMPLETED
   \<and> result_path (task (run ex_final ''/tmp'' [Cancel, CancelAll]
       (run ex_final ''/tmp'' ex_all
          (start_task (AsyncTask_init 5 ''a'' ex_request) ex_world))))
       = Some ''/tmp/a.wav''
   \<and> error_message (task (run ex_final ''/tmp'' [Cancel, CancelAll]
       (run ex_final ''/tmp'' ex_all
          (start_task (AsyncTask_init 5 ''a'' ex_request) ex_world)))) = None"
proof -
  let ?w = "run ex_final ''/tmp'' ex_all
      (start_task (AsyncTask_init 5 ''a'' ex_request) ex_world)"
  have w: "?w = \<lparr>files = [''/tmp/a.wav'' \<mapsto> [1, 2]],
      log = [(INFO, [Str ''Task '', Str ''a'', Str '' completed in '', Flt 9, Str ''s''])],
      pc = Returned,
      task = ex_task\<lparr>status := COMPLETED, started_at := Some 7, completed_at := Some 16,
                     result_path := Some ''/tmp/a.wav''\<rparr>,
      pulls = 1\<rparr>"
    using ex_final_all by (simp add: ex_task_def)
  have c: "status (task ?w) = COMPLETED" by (simp only: w) simp
  have p: "pc ?w = Returned" by (simp only: w) simp
  have r: "result_path (task ?w) = Some ''/tmp/a.wav''" by (simp only: w) simp
  have e: "error_message (task ?w) = None"
    by (simp only: w) (simp add: ex_task_def AsyncTask_init_def)
  have z: "steps [Cancel, CancelAll] = 0" by simp
  show ?thesis
    using c p r e z
      terminal_status_kept [OF refl, of ex_final "''/tmp''" ex_all 5 "''a''" ex_request
        ex_world "[Cancel, CancelAll]"]
    by (simp add: terminal_def)
qed

subsection \<open>Cancelling a running task\<close>

lemma checkpoint_cancelled:
  assumes "cancelled (task w)" and "pc w = L121 \<or> (\<exists>r rest. pc w = L133 r rest)"
    and "3 \<le> steps evs"
  shows "pc (run env dir evs w) = Returned
       \<and> status (task (run env dir evs w)) = CANCELLED
       \<and> result_path (task (run env dir evs w)) = result_path (task w)
       \<and> error_message (task (run env dir evs w)) = error_message (task w)
       \<and> completed_at (task (run env dir evs w)) = completed_at (task w)"
proof -
  define P where "P = (\<lambda>v::Worker. cancelled (task v)
      \<and> result_path (task v) = result_path (task w)
      \<and> error_message (task v) = error_message (task w)
      \<and> completed_at (task v) = completed_at (task w)
      \<and> (pc v = L121 \<or> pc v = L122 \<or> (\<exists>r rest. pc v = L133 r rest) \<or> pc v = L134
          \<or> pc v = L136 \<and> status (task v) = CANCELLED
          \<or> pc v = Returned \<and> status (task v) = CANCELLED))"
  have step: "P (apply_event env dir v ev)" if "P v" for v :: Worker and ev
    using that unfolding P_def
    by (cases ev) (auto simp: run_task_step_def status_cancel)
  have dec: "cancel_rank (pc (run_task_step env dir now v)) \<le> cancel_rank (pc v) - 1"
    if "P v" for v :: Worker and now
    using that unfolding P_def by (auto simp: run_task_step_def)
  have Pw: "P w" using assms(1,2) by (auto simp: P_def)
  have "cancel_rank (pc w) \<le> 3" using assms(2) by auto
  with assms(3) have "cancel_rank (pc w) \<le> steps evs" by simp
  from run_within[of P env dir cancel_rank, OF step dec Pw this]
  show ?thesis by (auto simp: P_def)
qed

text \<open>
  The claim C1 as stated fails: \<^verbatim>\<open>cancel_task\<close> for an id whose record has the status
  running returns with the status of the record cancelled.
\<close>

theorem cancel_running_counterexample:
  "get_task ''a'' (ex_manager ex_running_task) = Some ex_running_task
   \<and> status ex_running_task = RUNNING
   \<and> fst (cancel_task ''a'' (ex_manager ex_running_task))
   \<and> map_option status (get_task ''a'' (snd (cancel_task ''a'' (ex_manager ex_running_task))))
       = Some CANCELLED
   \<and> map_option cancelled
       (get_task ''a'' (snd (cancel_task ''a'' (ex_manager ex_running_task)))) = Some True"
  by (simp add: get_task_def dict_get_def cancel_task_def ex_manager_def
      ex_running_task_def cancel_def Let_def)

text \<open>
  C1, amended. For an id whose record has the status running, \<^verbatim>\<open>cancel_task\<close> returns
  \<^verbatim>\<open>True\<close> and leaves the record with the flag \<^verbatim>\<open>cancelled\<close> set and the status
  cancelled; nothing else of it has changed. And a worker that comes to a checkpoint
  (line 121 or line 133) with the flag set sets the status cancelled and returns,
  within three of its statements, however calls of \<^verbatim>\<open>cancel\<close> are interleaved; result
  path, error message and \<^verbatim>\<open>completed_at\<close> stay as they were. Nothing is said of a
  worker that is past its last checkpoint.
\<close>

theorem cancel_running_task:
  assumes "get_task sid m = Some t" and "status t = RUNNING"
  shows "fst (cancel_task sid m) = True
    \<and> get_task sid (snd (cancel_task sid m))
        = Some (t\<lparr>cancelled := True, status := CANCELLED\<rparr>)
    \<and> (cancelled (task w) \<and> (pc w = L121 \<or> (\<exists>r rest. pc w = L133 r rest))
          \<and> 3 \<le> steps evs \<longrightarrow>
            pc (run env dir evs w) = Returned
          \<and> status (task (run env dir evs w)) = CANCELLED
          \<and> result_path (task (run env dir evs w)) = result_path (task w)
          \<and> error_message (task (run env dir evs w)) = error_message (task w)
          \<and> completed_at (task (run env dir evs w)) = completed_at (task w))"
proof -
  have "fst (cancel_task sid m) = True
    \<and> get_task sid (snd (cancel_task sid m))
        = Some (t\<lparr>cancelled := True, status := CANCELLED\<rparr>)"
    using assms
    by (simp add: cancel_task_def get_task_def dict_get_def map_of_dict_set_same
        cancel_running)
  then show ?thesis using checkpoint_cancelled[of w evs env dir] by blast
qed

theorem cancel_running_task_witness:
  "get_task ''a'' (ex_manager ex_running_task) = Some ex_running_task
   \<and> status ex_running_task = RUNNING
   \<and> fst (cancel_task ''a'' (ex_manager ex_running_task))
   \<and> get_task ''a'' (snd (cancel_task ''a'' (ex_manager ex_running_task)))
       = Some (ex_running_task\<lparr>cancelled := True, status := CANCELLED\<rparr>)
   \<and> cancelled (task (ex_worker (L133 (Segment [1, 2]) [])
        (ex_running_task\<lparr>cancelled := True, status := CANCELLED\<rparr>)))
   \<and> 3 \<le> steps (replicate 3 (Step 9))
   \<and> pc (run ex_segments ''/tmp'' (replicate 3 (Step 9))
        (ex_worker (L133 (Segment [1, 2]) [])
           (ex_running_task\<lparr>cancelled := True, status := CANCELLED\<rparr>))) = Returned
   \<and> status (task (run ex_segments ''/tmp'' (replicate 3 (Step 9))
        (ex_worker (L133 (Segment [1, 2]) [])
           (ex_running_task\<lparr>cancelled := True, status := CANCELLED\<rparr>)))) = CANCELLED"
proof -
  let ?w = "ex_worker (L133 (Segment [1, 2]) [])
           (ex_running_task\<lparr>cancelled := True, status := CANCELLED\<rparr>)"
  have g: "get_task ''a'' (ex_manager ex_running_task) = Some ex_running_task"
    by (simp add: get_task_def dict_get_def ex_manager_def)
  have s: "status ex_running_task = RUNNING"
    by (simp add: ex_running_task_def)
  have c: "cancelled (task ?w)" by (simp add: ex_worker_def)
  have p: "pc ?w = L121 \<or> (\<exists>r rest. pc ?w = L133 r rest)" by (simp add: ex_worker_def)
  have n: "3 \<le> steps (replicate 3 (Step 9))" by simp
  show ?thesis
    using g s c p n
      cancel_running_task [OF g s, of ?w "replicate 3 (Step 9)" ex_segments "''/tmp''"]
    by blast
qed

subsection \<open>A task cancelled before its worker starts\<close>




subsection \<open>cleanup_old_tasks\<close>

lemma tasks_delete_result_file [simp]: "tasks (delete_result_file env t m) = tasks m"
  by (simp add: delete_result_file_def split: option.splits sum.splits)

lemma files_delete_result_file:
  "files (delete_result_file env t m) p =
     (if result_path t = Some p \<and> p \<noteq> [] \<and> files m p \<noteq> None \<and> unlink_error env p = None
      then None else files m p)"
  by (auto simp: delete_result_file_def os_unlink_def os_path_exists_def
           split: option.splits sum.splits if_splits)

lemma log_delete_result_file:
  "log (delete_result_file env t m) =
     (case result_path t of
        None \<Rightarrow> log m
      | Some p \<Rightarrow>
          (case unlink_error env p of
             None \<Rightarrow> log m
           | Some e \<Rightarrow>
               if p \<noteq> [] \<and> files m p \<noteq> None
               then log m @ [(WARNING, [Str ''Failed to delete temp file '', Str p,
                                        Str '': '', Str (str e)])]
               else log m))"
  by (auto simp: delete_result_file_def os_unlink_def os_path_exists_def
           split: option.splits sum.splits if_splits)

lemma cleanup_scan_acc:
  "cleanup_scan env now age items (m, rm, c) = (m', rm', c') \<Longrightarrow>
     tasks m' = tasks m
   \<and> rm' = rm @ map fst (filter (\<lambda>kv. expired now age (snd kv)) items)
   \<and> c' = c + length (filter (\<lambda>kv. expired now age (snd kv)) items)"
proof (induction items arbitrary: m rm c)
  case Nil
  then show ?case by simp
next
  case (Cons kv items)
  obtain sid t where kv: "kv = (sid, t)" by (cases kv)
  show ?case
  proof (cases "expired now age t")
    case True
    with Cons.prems kv have
      "cleanup_scan env now age items (delete_result_file env t m, rm @ [sid], c + 1)
         = (m', rm', c')"
      by (simp add: expired_def Let_def)
    from Cons.IH[OF this] True kv show ?thesis by simp
  next
    case False
    with Cons.prems kv have "cleanup_scan env now age items (m, rm, c) = (m', rm', c')"
      by (simp add: expired_def Let_def)
    from Cons.IH[OF this] False kv show ?thesis by simp
  qed
qed

lemma cleanup_scan_files:
  "cleanup_scan env now age items (m, rm, c) = (m', rm', c') \<Longrightarrow>
     files m' p =
       (if files m p \<noteq> None \<and> unlink_error env p = None \<and> p \<noteq> []
           \<and> (\<exists>kv\<in>set items. expired now age (snd kv) \<and> result_path (snd kv) = Some p)
        then None else files m p)"
proof (induction items arbitrary: m rm c)
  case Nil
  then show ?case by simp
next
  case (Cons kv items)
  obtain sid t where kv: "kv = (sid, t)" by (cases kv)
  show ?case
  proof (cases "expired now age t")
    case True
    with Cons.prems kv have
      "cleanup_scan env now age items (delete_result_file env t m, rm @ [sid], c + 1)
         = (m', rm', c')"
      by (simp add: expired_def Let_def)
    from Cons.IH[OF this] True kv show ?thesis
      by (auto simp: files_delete_result_file)
  next
    case False
    with Cons.prems kv have "cleanup_scan env now age items (m, rm, c) = (m', rm', c')"
      by (simp add: expired_def Let_def)
    from Cons.IH[OF this] False kv show ?thesis by auto
  qed
qed

lemma cleanup_scan_log_mono:
  "cleanup_scan env now age items (m, rm, c) = (m', rm', c') \<Longrightarrow> set (log m) \<subseteq> set (log m')"
proof (induction items arbitrary: m rm c)
  case Nil
  then show ?case by simp
next
  case (Cons kv items)
  obtain sid t where kv: "kv = (sid, t)" by (cases kv)
  show ?case
  proof (cases "expired now age t")
    case True
    with Cons.prems kv have
      "cleanup_scan env now age items (delete_result_file env t m, rm @ [sid], c + 1)
         = (m', rm', c')"
      by (simp add: expired_def Let_def)
    from Cons.IH[OF this] have "set (log (delete_result_file env t m)) \<subseteq> set (log m')" .
    moreover have "set (log m) \<subseteq> set (log (delete_result_file env t m))"
      by (auto simp: log_delete_result_file split: option.splits)
    ultimately show ?thesis by blast
  next
    case False
    with Cons.prems kv have "cleanup_scan env now age items (m, rm, c) = (m', rm', c')"
      by (simp add: expired_def Let_def)
    from Cons.IH[OF this] show ?thesis .
  qed
qed

lemma cleanup_scan_warning:
  assumes "cleanup_scan env now age items (m, rm, c) = (m', rm', c')"
    and "kv \<in> set items" and "expired now age (snd kv)"
    and "result_path (snd kv) = Some p" and "p \<noteq> []" and "files m p \<noteq> None"
    and "unlink_error env p = Some e"
  shows "(WARNING, [Str ''Failed to delete temp file '', Str p, Str '': '', Str (str e)])
           \<in> set (log m')"
  using assms
proof (induction items arbitrary: m rm c)
  case Nil
  then show ?case by simp
next
  case (Cons x items)
  obtain sid t where x: "x = (sid, t)" by (cases x)
  show ?case
  proof (cases "expired now age t")
    case True
    with Cons.prems(1) x have scan:
      "cleanup_scan env now age items (delete_result_file env t m, rm @ [sid], c + 1)
         = (m', rm', c')"
      by (simp add: expired_def Let_def)
    have keep: "files (delete_result_file env t m) p \<noteq> None"
      using Cons.prems(6,7) by (simp add: files_delete_result_file)
    show ?thesis
    proof (cases "kv = x")
      case True
      with x Cons.prems have
        "(WARNING, [Str ''Failed to delete temp file '', Str p, Str '': '', Str (str e)])
           \<in> set (log (delete_result_file env t m))"
        by (simp add: log_delete_result_file)
      with cleanup_scan_log_mono[OF scan] show ?thesis by blast
    next
      case False
      with Cons.prems(2) have "kv \<in> set items" by simp
      from Cons.IH[OF scan this Cons.prems(3,4,5) keep Cons.prems(7)] show ?thesis .
    qed
  next
    case False
    with Cons.prems(1) x have scan:
      "cleanup_scan env now age items (m, rm, c) = (m', rm', c')"
      by (simp add: expired_def Let_def)
    from False x Cons.prems(2,3) have "kv \<in> set items" by auto
    from Cons.IH[OF scan this Cons.prems(3,4,5,6,7)] show ?thesis .
  qed
qed

lemma cleanup_remove_ok:
  "distinct ks \<Longrightarrow> set ks \<subseteq> fst ` set d \<Longrightarrow>
   cleanup_remove ks d = Inr (filter (\<lambda>kv. fst kv \<notin> set ks) d)"
proof (induction ks arbitrary: d)
  case Nil
  then show ?case by simp
next
  case (Cons k ks)
  from Cons.prems have kin: "k \<in> fst ` set d" and nk: "k \<notin> set ks" and dk: "distinct ks"
    by auto
  from kin have c: "dict_contains k d"
    by (simp add: dict_contains_def map_of_eq_None_iff)
  let ?d = "filter (\<lambda>kv. fst kv \<noteq> k) d"
  have sub: "set ks \<subseteq> fst ` set ?d"
    using Cons.prems(2) nk by force
  have "cleanup_remove (k # ks) d = cleanup_remove ks ?d"
    using c by (simp add: dict_del_def)
  also have "\<dots> = Inr (filter (\<lambda>kv. fst kv \<notin> set ks) ?d)"
    by (rule Cons.IH[OF dk sub])
  also have "filter (\<lambda>kv. fst kv \<notin> set ks) ?d = filter (\<lambda>kv. fst kv \<notin> set (k # ks)) d"
    by (auto intro: filter_cong)
  finally show ?case .
qed

lemma filter_keys_of_filter:
  assumes "distinct (map fst d)"
  shows "filter (\<lambda>kv. fst kv \<notin> set (map fst (filter E d))) d = filter (\<lambda>kv. \<not> E kv) d"
proof (rule filter_cong[OF refl])
  fix kv assume kv: "kv \<in> set d"
  have "fst kv \<in> set (map fst (filter E d)) \<longleftrightarrow> E kv"
  proof
    assume "fst kv \<in> set (map fst (filter E d))"
    then obtain kv' where kv': "kv' \<in> set d" "E kv'" "fst kv' = fst kv" by auto
    from assms kv kv'(1,3) have "kv' = kv"
      by (metis eq_key_imp_eq_value prod.collapse)
    with kv'(2) show "E kv" by simp
  next
    assume "E kv"
    with kv show "fst kv \<in> set (map fst (filter E d))" by auto
  qed
  then show "(fst kv \<notin> set (map fst (filter E d))) = (\<not> E kv)" by simp
qed

lemma cleanup_old_tasks_result:
  assumes "distinct (map fst (tasks m))"
  shows "\<exists>m' m1 rm c.
       cleanup_old_tasks env now age m = Inr m'
     \<and> cleanup_scan env now age (tasks m) (m, [], 0) = (m1, rm, c)
     \<and> tasks m' = filter (\<lambda>kv. \<not> expired now age (snd kv)) (tasks m)
     \<and> files m' = files m1 \<and> set (log m1) \<subseteq> set (log m')"
proof -
  obtain m1 rm c where scan: "cleanup_scan env now age (tasks m) (m, [], 0) = (m1, rm, c)"
    by (metis prod_cases3)
  let ?E = "\<lambda>kv. expired now age (snd kv)"
  from cleanup_scan_acc[OF scan] have t1: "tasks m1 = tasks m"
    and rm: "rm = map fst (filter ?E (tasks m))" by simp_all
  have "distinct rm" unfolding rm using assms by (simp add: distinct_map_filter)
  moreover have "set rm \<subseteq> fst ` set (tasks m1)" unfolding rm t1 by auto
  ultimately have "cleanup_remove rm (tasks m1) = Inr (filter (\<lambda>kv. fst kv \<notin> set rm) (tasks m1))"
    by (rule cleanup_remove_ok)
  also have "filter (\<lambda>kv. fst kv \<notin> set rm) (tasks m1) = filter (\<lambda>kv. \<not> ?E kv) (tasks m)"
    unfolding rm t1 by (rule filter_keys_of_filter[OF assms])
  finally have "cleanup_remove rm (tasks m1) = Inr (filter (\<lambda>kv. \<not> ?E kv) (tasks m))" .
  with scan show ?thesis
    by (auto simp: cleanup_old_tasks_def)
qed

text \<open>
  The claim C5 as stated fails in its last part: a registry with one task created at
  clock value 5, swept at clock value 5 with \<^verbatim>\<open>max_age_seconds = 0\<close>, keeps the task,
  since its age 0 is not greater than 0.
\<close>

theorem sweep_zero_counterexample:
  "tasks (ex_manager ex_task) = [(''a'', ex_task)]
   \<and> created_at ex_task = 5
   \<and> cleanup_old_tasks (ex_env []) 5 0 (ex_manager ex_task) = Inr (ex_manager ex_task)"
  by (simp add: cleanup_old_tasks_def ex_manager_def ex_task_def AsyncTask_init_def Let_def)

text \<open>
  C5, amended. For every registry (a dict: its keys are distinct), clock value and
  \<^verbatim>\<open>max_age_seconds\<close>, \<^verbatim>\<open>cleanup_old_tasks\<close> returns without raising and leaves exactly
  the records whose age \<^verbatim>\<open>current_time - created_at\<close> is not greater than
  \<^verbatim>\<open>max_age_seconds\<close>, in their order, whatever their status; the result file of each
  record removed is gone afterwards if \<^verbatim>\<open>os.unlink\<close> does not raise for it; and with
  \<^verbatim>\<open>max_age_seconds = 0\<close> a registry all of whose records were created strictly before
  the clock value of the sweep is left empty.
\<close>

theorem cleanup_old_tasks_removes_expired:
  assumes "distinct (map fst (tasks m))"
  shows "\<exists>m'. cleanup_old_tasks env now age m = Inr m'
     \<and> tasks m' = filter (\<lambda>kv. \<not> expired now age (snd kv)) (tasks m)
     \<and> (\<forall>kv\<in>set (tasks m). \<forall>p.
            expired now age (snd kv) \<and> result_path (snd kv) = Some p \<and> p \<noteq> []
            \<and> unlink_error env p = None \<longrightarrow> files m' p = None)
     \<and> (age = 0 \<and> (\<forall>kv\<in>set (tasks m). created_at (snd kv) < now) \<longrightarrow> tasks m' = [])"
proof -
  from cleanup_old_tasks_result[OF assms, of env now age]
  obtain m' m1 rm c where r: "cleanup_old_tasks env now age m = Inr m'"
    "cleanup_scan env now age (tasks m) (m, [], 0) = (m1, rm, c)"
    "tasks m' = filter (\<lambda>kv. \<not> expired now age (snd kv)) (tasks m)"
    "files m' = files m1"
    by blast
  have f: "files m' p = None"
    if "kv \<in> set (tasks m)" "expired now age (snd kv)" "result_path (snd kv) = Some p"
       "p \<noteq> []" "unlink_error env p = None" for kv p
    using cleanup_scan_files[OF r(2), of p] that r(4) by auto
  have e: "tasks m' = []" if "age = 0" "\<forall>kv\<in>set (tasks m). created_at (snd kv) < now"
    unfolding r(3) using that by (auto simp: expired_def filter_empty_conv)
  from r(1,3) f e show ?thesis by blast
qed

theorem cleanup_old_tasks_removes_expired_witness:
  "distinct (map fst (tasks ex_manager2))
   \<and> length (tasks ex_manager2) = 2
   \<and> (\<exists>m'. cleanup_old_tasks (ex_env []) 10 0 ex_manager2 = Inr m'
          \<and> tasks m' = [] \<and> files m' ''/tmp/a.wav'' = None)"
proof -
  have d: "distinct (map fst (tasks ex_manager2))"
    by (simp add: ex_manager2_def)
  have a: "(''a'', ex_done_task) \<in> set (tasks ex_manager2)"
    by (simp add: ex_manager2_def)
  have x: "expired 10 0 (snd (''a'', ex_done_task))
      \<and> result_path (snd (''a'', ex_done_task)) = Some ''/tmp/a.wav''
      \<and> ''/tmp/a.wav'' \<noteq> [] \<and> unlink_error (ex_env []) ''/tmp/a.wav'' = None"
    by (simp add: expired_def ex_done_task_def ex_task_def AsyncTask_init_def ex_env_def)
  have y: "(0::real) = 0 \<and> (\<forall>kv\<in>set (tasks ex_manager2). created_at (snd kv) < 10)"
    by (simp add: ex_manager2_def ex_done_task_def ex_task_def AsyncTask_init_def)
  from cleanup_old_tasks_removes_expired [OF d, of "ex_env []" 10 0]
  obtain m' where m': "cleanup_old_tasks (ex_env []) 10 0 ex_manager2 = Inr m'"
    "\<forall>kv\<in>set (tasks ex_manager2). \<forall>p.
            expired 10 0 (snd kv) \<and> result_path (snd kv) = Some p \<and> p \<noteq> []
            \<and> unlink_error (ex_env []) p = None \<longrightarrow> files m' p = None"
    "(0::real) = 0 \<and> (\<forall>kv\<in>set (tasks ex_manager2). created_at (snd kv) < 10)
       \<longrightarrow> tasks m' = []"
    by blast
  from m'(2) a x have "files m' ''/tmp/a.wav'' = None" by blast
  moreover from m'(3) y have "tasks m' = []" by blast
  moreover have "length (tasks ex_manager2) = 2" by (simp add: ex_manager2_def)
  ultimately show ?thesis using d m'(1) by blast
qed

subsection \<open>A deletion that fails during the sweep\<close>

text \<open>
  C10. For every registry (a dict: its keys are distinct) and whatever \<^verbatim>\<open>os.unlink\<close>
  does, \<^verbatim>\<open>cleanup_old_tasks\<close> returns without raising and leaves exactly the records
  that are not expired: a deletion that fails stops neither the removal of its record
  nor the handling of the records after it. For each expired record whose result
  file exists and whose deletion raises \<open>e\<close>, the log holds afterwards the warning
  "Failed to delete temp file", with the path and \<^verbatim>\<open>str(e)\<close>.
\<close>

theorem cleanup_survives_unlink_failure:
  assumes "distinct (map fst (tasks m))"
  shows "\<exists>m'. cleanup_old_tasks env now age m = Inr m'
     \<and> tasks m' = filter (\<lambda>kv. \<not> expired now age (snd kv)) (tasks m)
     \<and> (\<forall>kv\<in>set (tasks m). \<forall>p e.
            expired now age (snd kv) \<and> result_path (snd kv) = Some p \<and> p \<noteq> []
            \<and> files m p \<noteq> None \<and> unlink_error env p = Some e \<longrightarrow>
              (WARNING, [Str ''Failed to delete temp file '', Str p, Str '': '', Str (str e)])
                \<in> set (log m'))"
proof -
  from cleanup_old_tasks_result[OF assms, of env now age]
  obtain m' m1 rm c where r: "cleanup_old_tasks env now age m = Inr m'"
    "cleanup_scan env now age (tasks m) (m, [], 0) = (m1, rm, c)"
    "tasks m' = filter (\<lambda>kv. \<not> expired now age (snd kv)) (tasks m)"
    "set (log m1) \<subseteq> set (log m')"
    by blast
  have w: "(WARNING, [Str ''Failed to delete temp file '', Str p, Str '': '', Str (str e)])
                \<in> set (log m')"
    if "kv \<in> set (tasks m)" "expired now age (snd kv)" "result_path (snd kv) = Some p"
       "p \<noteq> []" "files m p \<noteq> None" "unlink_error env p = Some e" for kv p e
    using cleanup_scan_warning[OF r(2) that] r(4) by blast
  from r(1,3) w show ?thesis by blast
qed

theorem cleanup_survives_unlink_failure_witness:
  "distinct (map fst (tasks ex_manager2))
   \<and> files ex_manager2 ''/tmp/a.wav'' \<noteq> None
   \<and> unlink_error ex_denied ''/tmp/a.wav'' = Some (OtherException ''Permission denied'')
   \<and> (\<exists>m'. cleanup_old_tasks ex_denied 10 0 ex_manager2 = Inr m'
          \<and> tasks m' = []
          \<and> (WARNING, [Str ''Failed to delete temp file '', Str ''/tmp/a.wav'', Str '': '',
                        Str ''Permission denied'']) \<in> set (log m'))"
proof -
  have d: "distinct (map fst (tasks ex_manager2))"
    by (simp add: ex_manager2_def)
  have a: "(''a'', ex_done_task) \<in> set (tasks ex_manager2)"
    by (simp add: ex_manager2_def)
  have u: "unlink_error ex_denied ''/tmp/a.wav'' = Some (OtherException ''Permission denied'')"
    by (simp add: ex_denied_def ex_env_def)
  have f: "files ex_manager2 ''/tmp/a.wav'' \<noteq> None"
    by (simp add: ex_manager2_def)
  have x: "expired 10 0 (snd (''a'', ex_done_task))
      \<and> result_path (snd (''a'', ex_done_task)) = Some ''/tmp/a.wav''
      \<and> ''/tmp/a.wav'' \<noteq> []"
    by (simp add: expired_def ex_done_task_def ex_task_def AsyncTask_init_def)
  have e: "filter (\<lambda>kv. \<not> expired 10 0 (snd kv)) (tasks ex_manager2) = []"
    by (simp add: expired_def ex_manager2_def ex_done_task_def ex_task_def AsyncTask_init_def)
  from cleanup_survives_unlink_failure [OF d, of ex_denied 10 0]
  obtain m' where m': "cleanup_old_tasks ex_denied 10 0 ex_manager2 = Inr m'"
    "tasks m' = filter (\<lambda>kv. \<not> expired 10 0 (snd kv)) (tasks ex_manager2)"
    "\<forall>kv\<in>set (tasks ex_manager2). \<forall>p e.
            expired 10 0 (snd kv) \<and> result_path (snd kv) = Some p \<and> p \<noteq> []
            \<and> files ex_manager2 p \<noteq> None \<and> unlink_error ex_denied p = Some e \<longrightarrow>
              (WARNING, [Str ''Failed to delete temp file '', Str p, Str '': '', Str (str e)])
                \<in> set (log m')"
    by blast
  from m'(3) a x f u
  have "(WARNING, [Str ''Failed to delete temp file '', Str ''/tmp/a.wav'', Str '': '',
                   Str (str (OtherException ''Permission denied''))]) \<in> set (log m')"
    by blast
  then have "(WARNING, [Str ''Failed to delete temp file '', Str ''/tmp/a.wav'', Str '': '',
                   Str ''Permission denied'']) \<in> set (log m')"
    by simp
  with m'(1,2) e d f u show ?thesis by auto
qed

end
